theory Spec2Isabelle
  imports Main "HOL-Library.AList" "HOL-Library.FSet" "HOL-Library.Sublist"
    "HOL-Library.Char_ord" "HOL-Library.List_Lexorder"
begin


section \<open>Cell values and their textual forms\<close>

text \<open>
  \<^verbatim>\<open>types.ts\<close>: a row is an object \<^verbatim>\<open>{ [key: string]: string | number | boolean | null }\<close>.
  A string is the list of the UTF-8 bytes of the (well-formed) JavaScript string: equality,
  substring search and \<^verbatim>\<open>trim\<close> are exact on it, and \<^verbatim>\<open><\<close> is the order of the code points,
  which is JavaScript's order on text of the Basic Multilingual Plane. Numeric
  cells are modelled by integers, the numbers whose \<^verbatim>\<open>String(n)\<close> is the plain decimal numeral
  (below \<open>10^21\<close> in size); the sign of the subtraction in the sort comparator is exact for
  them. \<^verbatim>\<open>toLowerCase\<close> maps the letters A to Z and leaves every other byte: it is exact on
  ASCII text, the Unicode case table is not modelled. A row is read as a plain dictionary:
  no column is named like a member of \<^verbatim>\<open>Object.prototype\<close>.
\<close>

datatype cell = Str string | Num int | Bool bool | Null

type_synonym fields = "(string \<times> cell) list"

text \<open>
  Rows are never mutated in place: every handler builds new objects with the spread
  operator. A row object is therefore modelled as its identity (the allocation number of
  the object) together with its immutable content; \<^verbatim>\<open>===\<close> on two row objects compares
  the identities.
\<close>

record row_obj =
  ident :: nat
  content :: fields

record spreadsheet =
  headers :: "string list"
  rows :: "row_obj list"
  fileName :: string
  fileId :: "string option"

definition digit_char :: "nat \<Rightarrow> char" where
  "digit_char d = ''0123456789'' ! d"

fun nat_digits :: "nat \<Rightarrow> string" where
  "nat_digits n = (if n < 10 then [digit_char n] else nat_digits (n div 10) @ [digit_char (n mod 10)])"

declare nat_digits.simps [simp del]

definition int_string :: "int \<Rightarrow> string" where
  "int_string i = (if i < 0 then CHR ''-'' # nat_digits (nat (- i)) else nat_digits (nat i))"

text \<open>\<^verbatim>\<open>String(val)\<close> for a cell that is present.\<close>

fun String_of :: "cell \<Rightarrow> string" where
  "String_of (Str s) = s"
| "String_of (Num n) = int_string n"
| "String_of (Bool b) = (if b then ''true'' else ''false'')"
| "String_of Null = ''null''"

text \<open>\<^verbatim>\<open>String(val ?? '')\<close> for a property read \<^verbatim>\<open>row[col]\<close>: \<open>None\<close> is \<^verbatim>\<open>undefined\<close>.\<close>

fun String_or_empty :: "cell option \<Rightarrow> string" where
  "String_or_empty None = ''''"
| "String_or_empty (Some Null) = ''''"
| "String_or_empty (Some c) = String_of c"

definition lower_char :: "char \<Rightarrow> char" where
  "lower_char c =
     (case map_of (zip ''ABCDEFGHIJKLMNOPQRSTUVWXYZ'' ''abcdefghijklmnopqrstuvwxyz'') c of
        Some l \<Rightarrow> l | None \<Rightarrow> c)"

definition toLowerCase :: "string \<Rightarrow> string" where
  "toLowerCase s = map lower_char s"

fun str_includes :: "string \<Rightarrow> string \<Rightarrow> bool" where
  "str_includes [] q = (q = [])"
| "str_includes (c # cs) q = (prefix q (c # cs) \<or> str_includes cs q)"

definition get_field :: "row_obj \<Rightarrow> string \<Rightarrow> cell option" where
  "get_field r col = map_of (content r) col"

section \<open>The view pipeline: \<^verbatim>\<open>filteredRows\<close>\<close>

datatype direction = Asc | Desc

record sort_config =
  key :: "string option"
  direction :: direction

text \<open>The search step: \<^verbatim>\<open>Object.values(row).some(val => String(val).toLowerCase().includes(query))\<close>.\<close>

definition row_matches :: "string \<Rightarrow> row_obj \<Rightarrow> bool" where
  "row_matches query r = list_ex (\<lambda>val. str_includes (toLowerCase (String_of val)) query) (map snd (content r))"

definition search_step :: "string \<Rightarrow> row_obj list \<Rightarrow> row_obj list" where
  "search_step searchQuery rs =
     (if searchQuery \<noteq> [] then filter (row_matches (toLowerCase searchQuery)) rs else rs)"

text \<open>One iteration of \<^verbatim>\<open>Object.entries(columnFilters).forEach\<close>.\<close>

definition filter_entry :: "row_obj list \<Rightarrow> string \<times> string fset \<Rightarrow> row_obj list" where
  "filter_entry rs e =
     (case e of (col, vals) \<Rightarrow>
        if fcard vals > 0 then filter (\<lambda>r. String_or_empty (get_field r col) |\<in>| vals) rs else rs)"

definition column_filter_step :: "(string \<times> string fset) list \<Rightarrow> row_obj list \<Rightarrow> row_obj list" where
  "column_filter_step columnFilters rs = foldl filter_entry rs columnFilters"

text \<open>
  \<^verbatim>\<open>columnFilters[column] || []\<close>: the accepted set of a column, empty when the column has
  no entry; and the test one entry of \<^verbatim>\<open>columnFilters\<close> puts on a row.
\<close>

definition accepted :: "(string \<times> string fset) list \<Rightarrow> string \<Rightarrow> string fset" where
  "accepted cf column = (case map_of cf column of None \<Rightarrow> {||} | Some vals \<Rightarrow> vals)"

definition entry_ok :: "row_obj \<Rightarrow> string \<times> string fset \<Rightarrow> bool" where
  "entry_ok r e = (fcard (snd e) = 0 \<or> String_or_empty (get_field r (fst e)) |\<in>| snd e)"

text \<open>The comparator handed to \<^verbatim>\<open>sort\<close>; only the sign of the result matters.\<close>

definition compare_rows :: "string \<Rightarrow> direction \<Rightarrow> row_obj \<Rightarrow> row_obj \<Rightarrow> int" where
  "compare_rows k dir a b =
     (let aVal = get_field a k; bVal = get_field b k in
      if aVal = bVal then 0
      else case (aVal, bVal) of
        (Some (Num x), Some (Num y)) \<Rightarrow> (if dir = Asc then x - y else y - x)
      | _ \<Rightarrow>
        (let aStr = toLowerCase (String_or_empty aVal); bStr = toLowerCase (String_or_empty bVal) in
         if aStr < bStr then (if dir = Asc then - 1 else 1)
         else if aStr > bStr then (if dir = Asc then 1 else - 1)
         else 0))"

text \<open>
  \<^verbatim>\<open>Array.prototype.sort\<close> is the engine's. ECMAScript fixes its result (the stable sorted
  order) only for a comparator that is a consistent order on the array, and
  \<^verbatim>\<open>compare_rows\<close> is none on a column that mixes numbers and text; elsewhere the result is
  the engine's choice. The model is V8's algorithm (\<^verbatim>\<open>third_party/v8/builtins/array-sort.tq\<close>)
  for an array of fewer than 64 elements, which is a single run: \<^verbatim>\<open>CountAndMakeRun\<close> takes
  the longest prefix that is non-descending or strictly descending and reverses it in the
  second case, and \<^verbatim>\<open>BinaryInsertionSort\<close> inserts each remaining element by binary search.
  On 64 elements and more V8 merges several such runs; the model keeps the single run there,
  which gives the same array whenever the comparator is a consistent order.
\<close>

fun extend_run :: "bool \<Rightarrow> ('a \<Rightarrow> 'a \<Rightarrow> int) \<Rightarrow> 'a \<Rightarrow> 'a list \<Rightarrow> 'a list \<times> 'a list" where
  "extend_run isDescending cmp previousElement [] = ([], [])"
| "extend_run isDescending cmp previousElement (currentElement # rest) =
     (let order = cmp currentElement previousElement in
      if (if isDescending then order \<ge> 0 else order < 0) then ([], currentElement # rest)
      else (case extend_run isDescending cmp currentElement rest of
              (r, after) \<Rightarrow> (currentElement # r, after)))"

fun count_and_make_run :: "('a \<Rightarrow> 'a \<Rightarrow> int) \<Rightarrow> 'a list \<Rightarrow> 'a list \<times> 'a list" where
  "count_and_make_run cmp [] = ([], [])"
| "count_and_make_run cmp [x] = ([x], [])"
| "count_and_make_run cmp (elementHigh # elementLow # rest) =
     (let isDescending = (cmp elementLow elementHigh < 0) in
      case extend_run isDescending cmp elementLow rest of
        (r, after) \<Rightarrow>
          (if isDescending then rev (elementHigh # elementLow # r) else elementHigh # elementLow # r,
           after))"

function search_left :: "('a \<Rightarrow> 'a \<Rightarrow> int) \<Rightarrow> 'a \<Rightarrow> 'a list \<Rightarrow> nat \<Rightarrow> nat \<Rightarrow> nat" where
  "search_left cmp pivot run left right =
     (if left < right
      then (let mid = left + (right - left) div 2 in
            if cmp pivot (run ! mid) < 0 then search_left cmp pivot run left mid
            else search_left cmp pivot run (mid + 1) right)
      else left)"
  by pat_completeness auto
termination
  by (relation "measure (\<lambda>(cmp, pivot, run, left, right). right - left)") auto

declare search_left.simps [simp del]

definition binary_insert :: "('a \<Rightarrow> 'a \<Rightarrow> int) \<Rightarrow> 'a list \<Rightarrow> 'a \<Rightarrow> 'a list" where
  "binary_insert cmp run pivot =
     (let left = search_left cmp pivot run 0 (length run) in take left run @ pivot # drop left run)"

definition array_sort :: "('a \<Rightarrow> 'a \<Rightarrow> int) \<Rightarrow> 'a list \<Rightarrow> 'a list" where
  "array_sort cmp xs =
     (if length xs < 2 then xs
      else case count_and_make_run cmp xs of (run, after) \<Rightarrow> foldl (binary_insert cmp) run after)"

text \<open>\<^verbatim>\<open>if (sortConfig.key)\<close>: \<^verbatim>\<open>null\<close> and the empty string are both falsy.\<close>

definition sort_step :: "sort_config \<Rightarrow> row_obj list \<Rightarrow> row_obj list" where
  "sort_step cfg rs =
     (case key cfg of
        None \<Rightarrow> rs
      | Some k \<Rightarrow> if k = [] then rs else array_sort (compare_rows k (direction cfg)) rs)"

definition compute_filteredRows ::
  "spreadsheet option \<Rightarrow> string \<Rightarrow> (string \<times> string fset) list \<Rightarrow> sort_config \<Rightarrow> row_obj list" where
  "compute_filteredRows d searchQuery columnFilters cfg =
     (case d of
        None \<Rightarrow> []
      | Some dat \<Rightarrow> sort_step cfg (column_filter_step columnFilters (search_step searchQuery (rows dat))))"

section \<open>The application state and its handlers\<close>

text \<open>
  The \<^verbatim>\<open>useState\<close> cells of \<^verbatim>\<open>App\<close> that the handlers below read or write, the log of
  \<^verbatim>\<open>alert\<close> calls, the allocator of object identities, and the cell of
  \<^verbatim>\<open>useMemo\<close>: the dependency values of the last computation and its result.
\<close>

record app_state =
  data :: "spreadsheet option"
  searchQuery :: string
  selectedIndex :: "int option"
  isPanelOpen :: bool
  sortConfig :: sort_config
  visibleColumns :: "string fset"
  columnOrder :: "string list"
  columnFilters :: "(string \<times> string fset) list"
  isAddingColumn :: bool
  newColumnName :: string
  pendingChanges :: fields
  editingField :: "string option"
  alerts :: "string list"
  next_ident :: nat
  memo :: "((spreadsheet option \<times> string \<times> sort_config) \<times> row_obj list) option"

text \<open>
  \<^verbatim>\<open>useMemo(() => ..., [data, searchQuery, sortConfig])\<close>: the body runs again only when
  one of the three listed dependencies differs from the last run; \<^verbatim>\<open>columnFilters\<close>, which
  the body reads, is not in the list. React compares dependencies by identity. Every
  handler that stores a new \<^verbatim>\<open>data\<close> object puts a newly allocated row into it or extends
  its headers, and \<^verbatim>\<open>toggleSort\<close> always changes the key or the direction, so comparing
  the values decides the same.
\<close>

definition filteredRows :: "app_state \<Rightarrow> row_obj list" where
  "filteredRows s = (case memo s of None \<Rightarrow> [] | Some (deps, v) \<Rightarrow> v)"

definition pipeline :: "app_state \<Rightarrow> row_obj list" where
  "pipeline s = compute_filteredRows (data s) (searchQuery s) (columnFilters s) (sortConfig s)"

definition render :: "app_state \<Rightarrow> app_state" where
  "render s =
     (let deps = (data s, searchQuery s, sortConfig s) in
      case memo s of
        None \<Rightarrow> s\<lparr>memo := Some (deps, pipeline s)\<rparr>
      | Some (old, v) \<Rightarrow> if old = deps then s else s\<lparr>memo := Some (deps, pipeline s)\<rparr>)"

definition initial_state :: app_state where
  "initial_state = render
     \<lparr>data = None, searchQuery = [], selectedIndex = None, isPanelOpen = False,
      sortConfig = \<lparr>key = None, direction = Asc\<rparr>, visibleColumns = {||}, columnOrder = [],
      columnFilters = [], isAddingColumn = False, newColumnName = [], pendingChanges = [],
      editingField = None, alerts = [], next_ident = 0, memo = None\<rparr>"

text \<open>
  The state update of an import (\<^verbatim>\<open>handleFileUpload\<close> for a CSV or an Excel file,
  \<^verbatim>\<open>fetchGoogleSheet\<close>); the parser is an external collaborator that returns one new
  object per record, with text cells from a CSV file and text, number and boolean cells
  from a workbook.
\<close>

definition new_rows :: "nat \<Rightarrow> fields list \<Rightarrow> row_obj list" where
  "new_rows n cs = map (\<lambda>(i, c). \<lparr>ident = i, content = c\<rparr>) (zip [n ..< n + length cs] cs)"

definition loadData :: "string list \<Rightarrow> fields list \<Rightarrow> string \<Rightarrow> string option \<Rightarrow> app_state \<Rightarrow> app_state" where
  "loadData hs cs name fid s =
     s\<lparr>data := Some \<lparr>headers = hs, rows = new_rows (next_ident s) cs, fileName = name, fileId = fid\<rparr>,
       visibleColumns := fset_of_list hs,
       columnOrder := hs,
       next_ident := next_ident s + length cs\<rparr>"

definition setSearchQuery :: "string \<Rightarrow> app_state \<Rightarrow> app_state" where
  "setSearchQuery q s = s\<lparr>searchQuery := q\<rparr>"

definition toggleSort :: "string \<Rightarrow> app_state \<Rightarrow> app_state" where
  "toggleSort k s =
     s\<lparr>sortConfig :=
        \<lparr>key = Some k,
         direction = (if key (sortConfig s) = Some k \<and> direction (sortConfig s) = Asc then Desc else Asc)\<rparr>\<rparr>"

definition toggleColumn :: "string \<Rightarrow> app_state \<Rightarrow> app_state" where
  "toggleColumn header s =
     (let next = visibleColumns s in
      s\<lparr>visibleColumns :=
          (if header |\<in>| next
           then (if fcard next > 1 then next |-| {|header|} else next)
           else finsert header next)\<rparr>)"

definition toggleColumnFilterValue :: "string \<Rightarrow> string \<Rightarrow> app_state \<Rightarrow> app_state" where
  "toggleColumnFilterValue column v s =
     (let prev = columnFilters s;
          stored = (case map_of prev column of None \<Rightarrow> {||} | Some vals \<Rightarrow> vals);
          currentSet = (if v |\<in>| stored then stored |-| {|v|} else finsert v stored)
      in s\<lparr>columnFilters :=
            (if fcard currentSet = 0 then AList.delete column prev
             else AList.update column currentSet prev)\<rparr>)"

definition clearColumnFilter :: "string \<Rightarrow> app_state \<Rightarrow> app_state" where
  "clearColumnFilter column s = s\<lparr>columnFilters := AList.delete column (columnFilters s)\<rparr>"

definition handleRowClick :: "int \<Rightarrow> app_state \<Rightarrow> app_state" where
  "handleRowClick i s =
     s\<lparr>selectedIndex := Some i, isPanelOpen := True, pendingChanges := [], editingField := None\<rparr>"

datatype nav = Prev | Next

definition navigateRecord :: "nav \<Rightarrow> app_state \<Rightarrow> app_state" where
  "navigateRecord dir s =
     (case selectedIndex s of
        None \<Rightarrow> s
      | Some i \<Rightarrow>
          (let newIndex = (if dir = Prev then max 0 (i - 1)
                           else min (int (length (filteredRows s)) - 1) (i + 1))
           in s\<lparr>selectedIndex := Some newIndex, pendingChanges := [], editingField := None\<rparr>))"

definition discardChanges :: "app_state \<Rightarrow> app_state" where
  "discardChanges s = s\<lparr>pendingChanges := [], editingField := None\<rparr>"

definition handleFieldUpdate :: "string \<Rightarrow> string \<Rightarrow> app_state \<Rightarrow> app_state" where
  "handleFieldUpdate header v s =
     s\<lparr>pendingChanges := AList.update header (Str v) (pendingChanges s), editingField := None\<rparr>"

text \<open>\<^verbatim>\<open>xs[i]\<close> for a number \<open>i\<close>: \<^verbatim>\<open>undefined\<close> outside the array.\<close>

definition array_get :: "'a list \<Rightarrow> int \<Rightarrow> 'a option" where
  "array_get xs i = (if 0 \<le> i \<and> i < int (length xs) then Some (xs ! nat i) else None)"

text \<open>
  \<^verbatim>\<open>data.rows.indexOf(targetRow)\<close>: the first position holding the same object
  (\<^verbatim>\<open>indexOf\<close> compares with \<^verbatim>\<open>===\<close>); \<open>None\<close> is \<^verbatim>\<open>-1\<close>.
\<close>

fun indexOf :: "row_obj list \<Rightarrow> row_obj \<Rightarrow> nat option" where
  "indexOf [] t = None"
| "indexOf (r # rs) t = (if ident r = ident t then Some 0 else map_option Suc (indexOf rs t))"

text \<open>\<^verbatim>\<open>{...a, ...b}\<close>: the keys of \<open>a\<close> with those of \<open>b\<close> written over them, new keys last.\<close>

definition spread :: "fields \<Rightarrow> fields \<Rightarrow> fields" where
  "spread a b = foldl (\<lambda>acc (k, v). AList.update k v acc) a b"

definition saveChanges :: "app_state \<Rightarrow> app_state" where
  "saveChanges s =
     (case (selectedIndex s, data s) of
        (Some i, Some d) \<Rightarrow>
          (case array_get (filteredRows s) i of
             None \<Rightarrow> s
           | Some targetRow \<Rightarrow>
               (case indexOf (rows d) targetRow of
                  None \<Rightarrow> s
                | Some originalIndex \<Rightarrow>
                    s\<lparr>data := Some (d\<lparr>rows := (rows d)[originalIndex :=
                                  \<lparr>ident = next_ident s,
                                   content = spread (content (rows d ! originalIndex)) (pendingChanges s)\<rparr>]\<rparr>),
                      pendingChanges := [],
                      next_ident := Suc (next_ident s)\<rparr>))
      | _ \<Rightarrow> s)"

text \<open>The state a successful commit at canonical position \<open>p\<close> leaves: the assignments of \<open>saveChanges\<close>.\<close>

definition committed :: "app_state \<Rightarrow> spreadsheet \<Rightarrow> nat \<Rightarrow> app_state" where
  "committed s d p =
     s\<lparr>data := Some (d\<lparr>rows := (rows d)[p :=
                  \<lparr>ident = next_ident s,
                   content = spread (content (rows d ! p)) (pendingChanges s)\<rparr>]\<rparr>),
       pendingChanges := [],
       next_ident := Suc (next_ident s)\<rparr>"

text \<open>
  \<^verbatim>\<open>String.prototype.trim\<close> strips the white space and line terminator code points of
  ECMAScript from both ends: TAB, LF, VT, FF, CR, SPACE, U+00A0, U+1680, U+2000 to U+200A,
  U+2028, U+2029, U+202F, U+205F, U+3000 and U+FEFF, here in UTF-8.
\<close>

definition whitespace :: "string list" where
  "whitespace =
     [[CHR 0x09], [CHR 0x0A], [CHR 0x0B], [CHR 0x0C], [CHR 0x0D], [CHR 0x20],
      [CHR 0xC2, CHR 0xA0],
      [CHR 0xE1, CHR 0x9A, CHR 0x80],
      [CHR 0xE2, CHR 0x80, CHR 0x80], [CHR 0xE2, CHR 0x80, CHR 0x81],
      [CHR 0xE2, CHR 0x80, CHR 0x82], [CHR 0xE2, CHR 0x80, CHR 0x83],
      [CHR 0xE2, CHR 0x80, CHR 0x84], [CHR 0xE2, CHR 0x80, CHR 0x85],
      [CHR 0xE2, CHR 0x80, CHR 0x86], [CHR 0xE2, CHR 0x80, CHR 0x87],
      [CHR 0xE2, CHR 0x80, CHR 0x88], [CHR 0xE2, CHR 0x80, CHR 0x89],
      [CHR 0xE2, CHR 0x80, CHR 0x8A],
      [CHR 0xE2, CHR 0x80, CHR 0xA8], [CHR 0xE2, CHR 0x80, CHR 0xA9],
      [CHR 0xE2, CHR 0x80, CHR 0xAF],
      [CHR 0xE2, CHR 0x81, CHR 0x9F],
      [CHR 0xE3, CHR 0x80, CHR 0x80],
      [CHR 0xEF, CHR 0xBB, CHR 0xBF]]"

text \<open>The white space character a string starts with, and the one it ends with.\<close>

definition leading_space :: "string \<Rightarrow> string option" where
  "leading_space s = find (\<lambda>w. prefix w s) whitespace"

definition trailing_space :: "string \<Rightarrow> string option" where
  "trailing_space s = find (\<lambda>w. prefix (rev w) (rev s)) whitespace"

function trimStart :: "string \<Rightarrow> string" where
  "trimStart s =
     (case leading_space s of None \<Rightarrow> s | Some w \<Rightarrow> trimStart (drop (length w) s))"
  by pat_completeness auto
termination
proof (relation "measure length")
  fix s w
  assume "leading_space s = Some w"
  then have w: "w \<in> set whitespace" and p: "prefix w s"
    by (auto simp: leading_space_def find_Some_iff)
  from w have "w \<noteq> []"
    unfolding whitespace_def by (elim rev_mp) simp
  with p have "length (drop (length w) s) < length s"
    by (auto simp: prefix_def)
  then show "(drop (length w) s, s) \<in> measure length" by simp
qed simp

function trimEnd :: "string \<Rightarrow> string" where
  "trimEnd s =
     (case trailing_space s of None \<Rightarrow> s | Some w \<Rightarrow> trimEnd (take (length s - length w) s))"
  by pat_completeness auto
termination
proof (relation "measure length")
  fix s w
  assume "trailing_space s = Some w"
  then have w: "w \<in> set whitespace" and p: "prefix (rev w) (rev s)"
    by (auto simp: trailing_space_def find_Some_iff)
  from w have "w \<noteq> []"
    unfolding whitespace_def by (elim rev_mp) simp
  moreover from p have "suffix w s"
    by (simp add: suffix_to_prefix)
  ultimately have "length (take (length s - length w) s) < length s"
    by (auto simp: suffix_def)
  then show "(take (length s - length w) s, s) \<in> measure length" by simp
qed simp

declare trimStart.simps [simp del] trimEnd.simps [simp del]

definition trim :: "string \<Rightarrow> string" where
  "trim s = trimEnd (trimStart s)"

text \<open>A string of white space only (the empty string too): stripping its start leaves nothing.\<close>

definition blank :: "string \<Rightarrow> bool" where
  "blank s = (trimStart s = [])"

text \<open>The length of a UTF-8 sequence, by its first byte (for the sequences above).\<close>

definition lead_length :: "char \<Rightarrow> nat" where
  "lead_length c = (if c = CHR 0xC2 then 2 else if c \<in> set [CHR 0xE1, CHR 0xE2, CHR 0xE3, CHR 0xEF] then 3 else 1)"

definition addColumn :: "string \<Rightarrow> app_state \<Rightarrow> app_state" where
  "addColumn name s =
     (case data s of
        None \<Rightarrow> s
      | Some d \<Rightarrow>
          if trim name = [] then s
          else
            (let trimmedName = trim name in
             if trimmedName \<in> set (headers d)
             then s\<lparr>alerts := alerts s @ [''Column already exists'']\<rparr>
             else
               s\<lparr>data := Some (d\<lparr>headers := headers d @ [trimmedName],
                                 rows := new_rows (next_ident s)
                                   (map (\<lambda>r. AList.update trimmedName (Str []) (content r)) (rows d))\<rparr>),
                 visibleColumns := finsert trimmedName (visibleColumns s),
                 columnOrder := columnOrder s @ [trimmedName],
                 isAddingColumn := False,
                 newColumnName := [],
                 next_ident := next_ident s + length (rows d)\<rparr>))"

text \<open>\<^verbatim>\<open>columnOrder.indexOf(h)\<close> as a number, \<^verbatim>\<open>-1\<close> when absent.\<close>

fun str_indexOf :: "string list \<Rightarrow> string \<Rightarrow> int" where
  "str_indexOf [] h = - 1"
| "str_indexOf (x # xs) h =
     (if x = h then 0 else (let j = str_indexOf xs h in if j < 0 then - 1 else j + 1))"

text \<open>
  The start position \<^verbatim>\<open>splice\<close> works from: a negative start counts from the end, and
  the result is clamped to the array.
\<close>

definition splice_start :: "int \<Rightarrow> nat \<Rightarrow> nat" where
  "splice_start i len = (if i < 0 then nat (max (int len + i) 0) else min (nat i) len)"

definition splice_remove1 :: "int \<Rightarrow> 'a list \<Rightarrow> 'a list" where
  "splice_remove1 i xs = (let st = splice_start i (length xs) in take st xs @ drop (Suc st) xs)"

definition splice_insert :: "int \<Rightarrow> 'a \<Rightarrow> 'a list \<Rightarrow> 'a list" where
  "splice_insert i x xs = (let st = splice_start i (length xs) in take st xs @ x # drop st xs)"

definition moveColumn :: "string \<Rightarrow> string \<Rightarrow> app_state \<Rightarrow> app_state" where
  "moveColumn draggedHeader targetHeader s =
     (let oldIndex = str_indexOf (columnOrder s) draggedHeader;
          newIndex = str_indexOf (columnOrder s) targetHeader
      in s\<lparr>columnOrder := splice_insert newIndex draggedHeader (splice_remove1 oldIndex (columnOrder s))\<rparr>)"

definition resetApp :: "app_state \<Rightarrow> app_state" where
  "resetApp s =
     s\<lparr>data := None, searchQuery := [], selectedIndex := None, isPanelOpen := False,
       pendingChanges := [], editingField := None\<rparr>"

text \<open>The two ways to close the detail panel: a click on the backdrop, and the close button.\<close>

definition closePanelBackdrop :: "app_state \<Rightarrow> app_state" where
  "closePanelBackdrop s = s\<lparr>isPanelOpen := False\<rparr>"

definition closePanelButton :: "app_state \<Rightarrow> app_state" where
  "closePanelButton s = s\<lparr>isPanelOpen := False, pendingChanges := [], editingField := None\<rparr>"

subsection \<open>Events\<close>

text \<open>
  Every event runs its handler to completion; React then calls the component again with
  the new state, which refreshes the memo cell (\<open>render\<close>). \<open>step\<close> is this state update;
  whether building the elements from the new state throws is \<open>render_throws\<close> below.
\<close>

datatype event =
    LoadData "string list" "fields list" string "string option"
  | SetSearchQuery string
  | ToggleSort string
  | ToggleColumn string
  | ToggleColumnFilterValue string string
  | ClearColumnFilter string
  | HandleRowClick nat
  | NavigateRecord nav
  | DiscardChanges
  | HandleFieldUpdate string string
  | SaveChanges
  | AddColumn string
  | MoveColumn string string
  | ResetApp
  | ClosePanelBackdrop
  | ClosePanelButton
  | SetEditingField "string option"
  | SetIsAddingColumn bool
  | SetNewColumnName string

fun handle :: "event \<Rightarrow> app_state \<Rightarrow> app_state" where
  "handle (LoadData hs cs name fid) s = loadData hs cs name fid s"
| "handle (SetSearchQuery q) s = setSearchQuery q s"
| "handle (ToggleSort k) s = toggleSort k s"
| "handle (ToggleColumn h) s = toggleColumn h s"
| "handle (ToggleColumnFilterValue c v) s = toggleColumnFilterValue c v s"
| "handle (ClearColumnFilter c) s = clearColumnFilter c s"
| "handle (HandleRowClick i) s = handleRowClick (int i) s"
| "handle (NavigateRecord dir) s = navigateRecord dir s"
| "handle DiscardChanges s = discardChanges s"
| "handle (HandleFieldUpdate h v) s = handleFieldUpdate h v s"
| "handle SaveChanges s = saveChanges s"
| "handle (AddColumn name) s = addColumn name s"
| "handle (MoveColumn a b) s = moveColumn a b s"
| "handle ResetApp s = resetApp s"
| "handle ClosePanelBackdrop s = closePanelBackdrop s"
| "handle ClosePanelButton s = closePanelButton s"
| "handle (SetEditingField f) s = s\<lparr>editingField := f\<rparr>"
| "handle (SetIsAddingColumn b) s = s\<lparr>isAddingColumn := b\<rparr>"
| "handle (SetNewColumnName n) s = s\<lparr>newColumnName := n\<rparr>"

definition step :: "event \<Rightarrow> app_state \<Rightarrow> app_state" where
  "step e s = render (handle e s)"

definition run :: "event list \<Rightarrow> app_state \<Rightarrow> app_state" where
  "run es s = foldl (\<lambda>st e. step e st) s es"

text \<open>
  The detail panel is rendered in the data view when \<^verbatim>\<open>isPanelOpen\<close> holds and
  \<^verbatim>\<open>selectedIndex\<close> is not null. Its title reads
  \<^verbatim>\<open>pendingChanges[columnOrder[0]] ?? filteredRows[selectedIndex][columnOrder[0]]\<close>, and for
  every visible column of \<^verbatim>\<open>columnOrder\<close> without a staged value it reads
  \<^verbatim>\<open>filteredRows[selectedIndex][header]\<close>. When \<^verbatim>\<open>filteredRows[selectedIndex]\<close> is
  \<^verbatim>\<open>undefined\<close> such a read throws a TypeError; nothing catches it, and React unmounts the
  application.
\<close>

definition first_column :: "string list \<Rightarrow> string" where
  "first_column order = (case order of [] \<Rightarrow> ''undefined'' | header # _ \<Rightarrow> header)"

definition render_throws :: "app_state \<Rightarrow> bool" where
  "render_throws s =
     (data s \<noteq> None \<and> isPanelOpen s \<and>
      (case selectedIndex s of
         None \<Rightarrow> False
       | Some i \<Rightarrow>
           array_get (filteredRows s) i = None \<and>
           (map_of (pendingChanges s) (first_column (columnOrder s)) = None \<or>
            map_of (pendingChanges s) (first_column (columnOrder s)) = Some Null \<or>
            list_ex (\<lambda>header. header |\<in>| visibleColumns s \<and> map_of (pendingChanges s) header = None)
              (columnOrder s))))"

text \<open>An event of the running application: \<open>None\<close> when the render after it throws.\<close>

definition step_checked :: "event \<Rightarrow> app_state \<Rightarrow> app_state option" where
  "step_checked e s = (let s' = step e s in if render_throws s' then None else Some s')"

fun run_checked :: "event list \<Rightarrow> app_state \<Rightarrow> app_state option" where
  "run_checked [] s = Some s"
| "run_checked (e # es) s =
     (case step_checked e s of None \<Rightarrow> None | Some s' \<Rightarrow> run_checked es s')"

inductive reachable :: "app_state \<Rightarrow> bool" where
  reachable_initial: "reachable initial_state"
| reachable_step: "reachable s \<Longrightarrow> step_checked e s = Some s' \<Longrightarrow> reachable s'"

text \<open>
  What every rendered state satisfies: the memo cell holds the current dependencies, the
  keys of the pending-edit object and of the filter object are unique, the row objects of the dataset are pairwise
  different objects, all allocated already, and the view consists of row objects of the
  dataset.
\<close>

definition data_ok :: "app_state \<Rightarrow> bool" where
  "data_ok s =
     (case data s of
        None \<Rightarrow> True
      | Some d \<Rightarrow>
          distinct (map ident (rows d)) \<and> list_all (\<lambda>r. ident r < next_ident s) (rows d))"

definition wf_state :: "app_state \<Rightarrow> bool" where
  "wf_state s =
     (memo s = Some ((data s, searchQuery s, sortConfig s), filteredRows s) \<and>
      distinct (map fst (pendingChanges s)) \<and>
      distinct (map fst (columnFilters s)) \<and>
      data_ok s \<and>
      (case data s of
         None \<Rightarrow> filteredRows s = []
       | Some d \<Rightarrow>
           list_all (\<lambda>r. r \<in> set (rows d)) (filteredRows s)))"

section \<open>Example states\<close>

definition one_visible :: app_state where
  "one_visible = initial_state\<lparr>visibleColumns := {|''A''|}, columnOrder := [''A'', ''B'']\<rparr>"

text \<open>A two-row sheet, sorted by column A in descending order: the view reverses the rows.\<close>

definition sorted_example :: app_state where
  "sorted_example =
     run [LoadData [''A'', ''B'']
            [[(''A'', Str ''1''), (''B'', Str ''x'')], [(''A'', Str ''2''), (''B'', Str ''y'')]]
            ''f.csv'' None,
          ToggleSort ''A'', ToggleSort ''A''] initial_state"

definition sorted_example_data :: spreadsheet where
  "sorted_example_data =
     \<lparr>headers = [''A'', ''B''],
      rows = [\<lparr>ident = 0, content = [(''A'', Str ''1''), (''B'', Str ''x'')]\<rparr>,
              \<lparr>ident = 1, content = [(''A'', Str ''2''), (''B'', Str ''y'')]\<rparr>],
      fileName = ''f.csv'', fileId = None\<rparr>"

text \<open>Two rows of equal content; the second is selected and an edit is staged.\<close>

definition duplicate_example :: app_state where
  "duplicate_example =
     run [LoadData [''A''] [[(''A'', Str ''1'')], [(''A'', Str ''1'')], [(''A'', Str ''2'')]] ''f.csv'' None,
          HandleRowClick 1, HandleFieldUpdate ''A'' ''9''] initial_state"

definition duplicate_example_data :: spreadsheet where
  "duplicate_example_data =
     \<lparr>headers = [''A''],
      rows = [\<lparr>ident = 0, content = [(''A'', Str ''1'')]\<rparr>,
              \<lparr>ident = 1, content = [(''A'', Str ''1'')]\<rparr>,
              \<lparr>ident = 2, content = [(''A'', Str ''2'')]\<rparr>],
      fileName = ''f.csv'', fileId = None\<rparr>"

text \<open>A two-row sheet, without a filter and after the value x of column A is ticked.\<close>

definition filter_example :: app_state where
  "filter_example =
     run [LoadData [''A''] [[(''A'', Str ''x'')], [(''A'', Str ''y'')]] ''f.csv'' None,
          ToggleColumnFilterValue ''A'' ''x''] initial_state"

definition unfiltered_example :: app_state where
  "unfiltered_example =
     run [LoadData [''A''] [[(''A'', Str ''x'')], [(''A'', Str ''y'')]] ''f.csv'' None] initial_state"

text \<open>A record is open and an edit is staged, not saved.\<close>

definition dirty_example :: app_state where
  "dirty_example =
     run [LoadData [''A''] [[(''A'', Str ''1'')], [(''A'', Str ''2'')]] ''f.csv'' None,
          HandleRowClick 0, HandleFieldUpdate ''A'' ''9''] initial_state"

text \<open>A sheet of three columns and no rows.\<close>

definition three_columns :: app_state where
  "three_columns =
     run [LoadData [''A'', ''B'', ''C''] [] ''f.csv'' None] initial_state"

definition unfiltered_data :: spreadsheet where
  "unfiltered_data =
     \<lparr>headers = [''A''],
      rows = [\<lparr>ident = 0, content = [(''A'', Str ''x'')]\<rparr>,
              \<lparr>ident = 1, content = [(''A'', Str ''y'')]\<rparr>],
      fileName = ''f.csv'', fileId = None\<rparr>"

text \<open>
  The search for x shows the first of two rows; it is opened and its field A is edited to q,
  so that after a commit the search matches no row.
\<close>

definition searched_example :: app_state where
  "searched_example =
     run [LoadData [''A''] [[(''A'', Str ''x'')], [(''A'', Str ''y'')]] ''f.csv'' None,
          SetSearchQuery ''x'', HandleRowClick 0, HandleFieldUpdate ''A'' ''q''] initial_state"

text \<open>
  A workbook column that mixes text and numbers: the text 9 above the numbers 10 and 9,
  sorted by that column in ascending order; and the numbers 9 and 10 above the text 9,
  sorted in descending order.
\<close>

definition mixed_rows :: "row_obj list" where
  "mixed_rows =
     [\<lparr>ident = 0, content = [(''A'', Str ''9'')]\<rparr>,
      \<lparr>ident = 1, content = [(''A'', Num 10)]\<rparr>,
      \<lparr>ident = 2, content = [(''A'', Num 9)]\<rparr>]"

definition mixed_example :: app_state where
  "mixed_example =
     run [LoadData [''A''] [[(''A'', Str ''9'')], [(''A'', Num 10)], [(''A'', Num 9)]] ''f.xlsx'' None,
          ToggleSort ''A''] initial_state"

definition mixed_rows_desc :: "row_obj list" where
  "mixed_rows_desc =
     [\<lparr>ident = 0, content = [(''A'', Num 9)]\<rparr>,
      \<lparr>ident = 1, content = [(''A'', Num 10)]\<rparr>,
      \<lparr>ident = 2, content = [(''A'', Str ''9'')]\<rparr>]"

definition mixed_example_desc :: app_state where
  "mixed_example_desc =
     run [LoadData [''A''] [[(''A'', Num 9)], [(''A'', Num 10)], [(''A'', Str ''9'')]] ''f.xlsx'' None,
          ToggleSort ''A'', ToggleSort ''A''] initial_state"

text \<open>
  The value 2 of column A is ticked in its filter menu, the first row of the table is
  opened and its field B is edited to z; then a column C is added from the detail panel.
\<close>

definition staged_example :: app_state where
  "staged_example =
     run [LoadData [''A'', ''B'']
            [[(''A'', Str ''1''), (''B'', Str ''x'')], [(''A'', Str ''2''), (''B'', Str ''y'')]]
            ''f.csv'' None,
          ToggleColumnFilterValue ''A'' ''2'', HandleRowClick 0, HandleFieldUpdate ''B'' ''z'']
       initial_state"

definition carry_example :: app_state where
  "carry_example =
     run [SetIsAddingColumn True, SetNewColumnName ''C'', AddColumn ''C''] staged_example"

section \<open>Auxiliary facts\<close>

lemma run_Nil [simp]: "run [] s = s"
  by (simp add: run_def)

lemma run_Cons [simp]: "run (e # es) s = run es (step e s)"
  by (simp add: run_def)

lemma render_fields [simp]:
  "data (render s) = data s"
  "searchQuery (render s) = searchQuery s"
  "selectedIndex (render s) = selectedIndex s"
  "isPanelOpen (render s) = isPanelOpen s"
  "sortConfig (render s) = sortConfig s"
  "visibleColumns (render s) = visibleColumns s"
  "columnOrder (render s) = columnOrder s"
  "columnFilters (render s) = columnFilters s"
  "pendingChanges (render s) = pendingChanges s"
  "editingField (render s) = editingField s"
  "alerts (render s) = alerts s"
  "next_ident (render s) = next_ident s"
  by (simp_all add: render_def Let_def split: option.splits prod.splits)

subsection \<open>The pipeline returns rows of the dataset\<close>

lemma extend_run_append: "extend_run d cmp p xs = (r, after) \<Longrightarrow> r @ after = xs"
  by (induction xs arbitrary: p r after) (auto simp: Let_def split: if_splits prod.splits)

lemma count_and_make_run_set:
  "count_and_make_run cmp xs = (r0, after) \<Longrightarrow> set r0 \<union> set after = set xs"
  by (induction cmp xs rule: count_and_make_run.induct)
    (auto simp: Let_def split: prod.splits if_splits dest!: extend_run_append)

lemma count_and_make_run_length:
  "count_and_make_run cmp xs = (r0, after) \<Longrightarrow> length r0 + length after = length xs"
  by (induction cmp xs rule: count_and_make_run.induct)
    (auto simp: Let_def split: prod.splits if_splits dest!: extend_run_append)

lemma set_binary_insert [simp]: "set (binary_insert cmp r0 pivot) = insert pivot (set r0)"
proof -
  have "set (take n r0) \<union> set (drop n r0) = set r0" for n
    by (metis append_take_drop_id set_append)
  then show ?thesis by (auto simp: binary_insert_def Let_def)
qed

lemma length_binary_insert [simp]: "length (binary_insert cmp r0 pivot) = Suc (length r0)"
  by (simp add: binary_insert_def Let_def)

lemma set_foldl_binary_insert: "set (foldl (binary_insert cmp) r0 xs) = set r0 \<union> set xs"
  by (induction xs arbitrary: r0) auto

lemma length_foldl_binary_insert: "length (foldl (binary_insert cmp) r0 xs) = length r0 + length xs"
  by (induction xs arbitrary: r0) auto

lemma set_array_sort [simp]: "set (array_sort cmp xs) = set xs"
proof (cases "length xs < 2")
  case True
  then show ?thesis by (simp add: array_sort_def)
next
  case False
  obtain r0 after where c: "count_and_make_run cmp xs = (r0, after)"
    by (cases "count_and_make_run cmp xs")
  with False have "array_sort cmp xs = foldl (binary_insert cmp) r0 after"
    by (simp add: array_sort_def)
  with count_and_make_run_set [OF c] show ?thesis
    by (simp add: set_foldl_binary_insert)
qed

lemma length_array_sort [simp]: "length (array_sort cmp xs) = length xs"
proof (cases "length xs < 2")
  case True
  then show ?thesis by (simp add: array_sort_def)
next
  case False
  obtain r0 after where c: "count_and_make_run cmp xs = (r0, after)"
    by (cases "count_and_make_run cmp xs")
  with False have "array_sort cmp xs = foldl (binary_insert cmp) r0 after"
    by (simp add: array_sort_def)
  with count_and_make_run_length [OF c] show ?thesis
    by (simp add: length_foldl_binary_insert)
qed

lemma set_sort_step [simp]: "set (sort_step cfg rs) = set rs"
  by (simp add: sort_step_def split: option.splits)

lemma set_search_step: "set (search_step q rs) \<subseteq> set rs"
  by (auto simp: search_step_def)

lemma set_filter_entry: "set (filter_entry rs e) \<subseteq> set rs"
  by (cases e) (auto simp: filter_entry_def)

lemma set_column_filter_step: "set (column_filter_step cf rs) \<subseteq> set rs"
proof (induction cf arbitrary: rs)
  case Nil
  then show ?case by (simp add: column_filter_step_def)
next
  case (Cons e cf)
  have "set (column_filter_step cf (filter_entry rs e)) \<subseteq> set (filter_entry rs e)"
    using Cons.IH .
  also have "\<dots> \<subseteq> set rs" by (rule set_filter_entry)
  finally show ?case by (simp add: column_filter_step_def)
qed

lemma set_compute_filteredRows:
  "set (compute_filteredRows (Some d) q cf cfg) \<subseteq> set (rows d)"
  using set_column_filter_step [of cf "search_step q (rows d)"] set_search_step [of q "rows d"]
  by (auto simp: compute_filteredRows_def)

lemma compute_filteredRows_None [simp]: "compute_filteredRows None q cf cfg = []"
  by (simp add: compute_filteredRows_def)

subsection \<open>Rendered states are well formed\<close>

lemma wf_render:
  assumes "wf_state s" and "memo s' = memo s" and "data_ok s'"
    and "distinct (map fst (pendingChanges s'))"
    and "distinct (map fst (columnFilters s'))"
  shows "wf_state (render s')"
proof (cases "(data s', searchQuery s', sortConfig s') = (data s, searchQuery s, sortConfig s)")
  case True
  from assms(1) have m: "memo s = Some ((data s, searchQuery s, sortConfig s), filteredRows s)"
    by (simp add: wf_state_def)
  with True assms(2) have r: "render s' = s'"
    by (simp add: render_def)
  from assms(2) have f: "filteredRows s' = filteredRows s"
    by (simp add: filteredRows_def)
  from True have d: "data s' = data s" by simp
  from assms(1) have "case data s of None \<Rightarrow> filteredRows s = []
      | Some d \<Rightarrow> list_all (\<lambda>r. r \<in> set (rows d)) (filteredRows s)"
    by (simp add: wf_state_def)
  with m True assms f d show ?thesis
    by (simp add: r wf_state_def split: option.splits)
next
  case False
  from assms(1) have m: "memo s = Some ((data s, searchQuery s, sortConfig s), filteredRows s)"
    by (simp add: wf_state_def)
  with False assms(2) have r: "render s' = s'\<lparr>memo := Some ((data s', searchQuery s', sortConfig s'), pipeline s')\<rparr>"
    by (auto simp: render_def)
  have "case data s' of None \<Rightarrow> pipeline s' = []
      | Some d \<Rightarrow> list_all (\<lambda>r. r \<in> set (rows d)) (pipeline s')"
    by (auto simp: pipeline_def list_all_iff split: option.splits
        dest: subsetD [OF set_compute_filteredRows])
  with assms(3,4,5) show ?thesis
    by (simp add: r wf_state_def filteredRows_def data_ok_def split: option.splits)
qed

lemma wf_initial: "wf_state initial_state"
  by (simp add: initial_state_def render_def wf_state_def data_ok_def filteredRows_def pipeline_def)

lemma ident_new_rows: "map ident (new_rows n cs) = [n ..< n + length cs]"
proof -
  have "map ident (new_rows n cs) = map fst (zip [n ..< n + length cs] cs)"
    by (simp add: new_rows_def case_prod_unfold comp_def)
  then show ?thesis by simp
qed

lemma content_new_rows: "map content (new_rows n cs) = cs"
proof -
  have "map content (new_rows n cs) = map snd (zip [n ..< n + length cs] cs)"
    by (simp add: new_rows_def case_prod_unfold comp_def)
  then show ?thesis by simp
qed

lemma length_new_rows [simp]: "length (new_rows n cs) = length cs"
  by (simp add: new_rows_def)

lemma data_ok_new_rows:
  "distinct (map ident (new_rows n cs)) \<and> list_all (\<lambda>r. ident r < n + length cs) (new_rows n cs)"
proof -
  have "ident r < n + length cs" if "r \<in> set (new_rows n cs)" for r
  proof -
    from that have "ident r \<in> set (map ident (new_rows n cs))" by simp
    then have "ident r \<in> set [n ..< n + length cs]" by (simp only: ident_new_rows)
    then show ?thesis by simp
  qed
  then show ?thesis
    by (simp add: ident_new_rows list_all_iff)
qed

lemma indexOf_nth:
  "distinct (map ident rs) \<Longrightarrow> p < length rs \<Longrightarrow> indexOf rs (rs ! p) = Some p"
proof (induction rs arbitrary: p)
  case Nil
  then show ?case by simp
next
  case (Cons r rs)
  show ?case
  proof (cases p)
    case 0
    then show ?thesis by simp
  next
    case (Suc k)
    with Cons.prems have k: "k < length rs" and "rs ! k \<in> set rs" by simp_all
    with Cons.prems have "ident r \<noteq> ident (rs ! k)" by auto
    with Cons Suc k show ?thesis by simp
  qed
qed

lemma map_of_spread:
  "map_of (spread a b) = map_of a ++ map_of (rev b)"
proof (induction b arbitrary: a)
  case Nil
  then show ?case by (simp add: spread_def)
next
  case (Cons e b)
  obtain k v where e: "e = (k, v)" by (cases e)
  have "map_of (spread a (e # b)) = map_of (spread (AList.update k v a) b)"
    by (simp add: spread_def e)
  also have "\<dots> = (map_of a)(k \<mapsto> v) ++ map_of (rev b)"
    by (simp only: Cons.IH update_conv')
  also have "(map_of a)(k \<mapsto> v) = map_of a ++ map_of [e]"
    by (simp add: e)
  also have "(map_of a ++ map_of [e]) ++ map_of (rev b) = map_of a ++ map_of (rev (e # b))"
    by (simp only: rev.simps map_of_append map_add_assoc)
  finally show ?case .
qed

lemma map_of_rev_distinct: "distinct (map fst xs) \<Longrightarrow> map_of (rev xs) = map_of xs"
proof (induction xs)
  case Nil
  then show ?case by simp
next
  case (Cons x xs)
  obtain k v where x: "x = (k, v)" by (cases x)
  from Cons.prems have "map_of xs k = None"
    by (simp add: x map_of_eq_None_iff)
  then have "map_of [x] ++ map_of xs = (map_of xs)(k \<mapsto> v)"
    by (auto simp: x map_add_def fun_eq_iff split: option.splits)
  with Cons show ?case
    by (simp add: x)
qed

lemma map_of_spread_distinct:
  "distinct (map fst b) \<Longrightarrow> map_of (spread a b) = map_of a ++ map_of b"
  by (simp add: map_of_spread map_of_rev_distinct)

subsection \<open>Committing\<close>

lemma indexOf_Some:
  "indexOf rs t = Some p \<Longrightarrow> p < length rs \<and> ident (rs ! p) = ident t"
proof (induction rs arbitrary: p)
  case Nil
  then show ?case by simp
next
  case (Cons r rs)
  show ?case
  proof (cases "ident r = ident t")
    case True
    with Cons.prems show ?thesis by simp
  next
    case False
    with Cons.prems obtain k where "indexOf rs t = Some k" and "p = Suc k"
      by auto
    with Cons.IH show ?thesis by simp
  qed
qed

lemma saveChanges_cases:
  "saveChanges s = s \<or>
   (\<exists>i d t p. selectedIndex s = Some i \<and> data s = Some d \<and>
      array_get (filteredRows s) i = Some t \<and> indexOf (rows d) t = Some p \<and>
      saveChanges s = committed s d p)"
  by (auto simp: saveChanges_def committed_def split: option.splits)

lemma saveChanges_selected:
  assumes "wf_state s" and "data s = Some d" and "selectedIndex s = Some (int i)"
    and "i < length (filteredRows s)" and "p < length (rows d)"
    and "filteredRows s ! i = rows d ! p"
  shows "saveChanges s = committed s d p"
proof -
  from assms(1,2) have "distinct (map ident (rows d))"
    by (simp add: wf_state_def data_ok_def)
  with assms(5) have "indexOf (rows d) (rows d ! p) = Some p"
    by (simp add: indexOf_nth)
  moreover from assms(4) have "array_get (filteredRows s) (int i) = Some (filteredRows s ! i)"
    by (simp add: array_get_def)
  ultimately show ?thesis using assms(2,3,6)
    by (simp add: saveChanges_def committed_def)
qed

lemma view_row_position:
  assumes "wf_state s" and "data s = Some d" and "i < length (filteredRows s)"
  shows "\<exists>p<length (rows d). rows d ! p = filteredRows s ! i"
proof -
  from assms(1,2) have "list_all (\<lambda>r. r \<in> set (rows d)) (filteredRows s)"
    by (simp add: wf_state_def)
  with assms(3) have "filteredRows s ! i \<in> set (rows d)"
    by (simp add: list_all_length)
  then show ?thesis by (simp add: in_set_conv_nth)
qed

subsection \<open>Every reachable state is well formed\<close>

lemma memo_handle: "memo (handle e s) = memo s"
proof (cases e)
  case SaveChanges
  then show ?thesis using saveChanges_cases [of s] by (auto simp: committed_def)
qed (simp_all add: loadData_def setSearchQuery_def toggleSort_def toggleColumn_def
      toggleColumnFilterValue_def clearColumnFilter_def handleRowClick_def navigateRecord_def
      discardChanges_def handleFieldUpdate_def addColumn_def moveColumn_def resetApp_def
      closePanelBackdrop_def closePanelButton_def Let_def split: option.splits)

lemma pending_handle:
  "distinct (map fst (pendingChanges s)) \<Longrightarrow> distinct (map fst (pendingChanges (handle e s)))"
proof (cases e)
  case SaveChanges
  assume "distinct (map fst (pendingChanges s))"
  then show ?thesis using SaveChanges saveChanges_cases [of s] by (auto simp: committed_def)
next
  case (HandleFieldUpdate h v)
  assume "distinct (map fst (pendingChanges s))"
  then show ?thesis using HandleFieldUpdate
    by (simp add: handleFieldUpdate_def distinct_update)
qed (simp_all add: loadData_def setSearchQuery_def toggleSort_def toggleColumn_def
      toggleColumnFilterValue_def clearColumnFilter_def handleRowClick_def navigateRecord_def
      discardChanges_def addColumn_def moveColumn_def resetApp_def
      closePanelBackdrop_def closePanelButton_def Let_def split: option.splits)

lemma filters_handle:
  "distinct (map fst (columnFilters s)) \<Longrightarrow> distinct (map fst (columnFilters (handle e s)))"
proof (cases e)
  case SaveChanges
  assume "distinct (map fst (columnFilters s))"
  then show ?thesis using SaveChanges saveChanges_cases [of s] by (auto simp: committed_def)
next
  case (ToggleColumnFilterValue c v)
  assume "distinct (map fst (columnFilters s))"
  then show ?thesis using ToggleColumnFilterValue
    by (simp add: toggleColumnFilterValue_def Let_def distinct_update distinct_delete)
next
  case (ClearColumnFilter c)
  assume "distinct (map fst (columnFilters s))"
  then show ?thesis using ClearColumnFilter
    by (simp add: clearColumnFilter_def distinct_delete)
qed (simp_all add: loadData_def setSearchQuery_def toggleSort_def toggleColumn_def
      handleRowClick_def navigateRecord_def discardChanges_def handleFieldUpdate_def
      addColumn_def moveColumn_def resetApp_def
      closePanelBackdrop_def closePanelButton_def Let_def split: option.splits)

lemma data_ok_committed:
  assumes "data_ok s" and "data s = Some d" and "p < length (rows d)"
  shows "data_ok (committed s d p)"
proof -
  let ?r = "\<lparr>ident = next_ident s, content = spread (content (rows d ! p)) (pendingChanges s)\<rparr>"
  from assms(1,2) have dis: "distinct (map ident (rows d))"
    and old: "\<forall>r \<in> set (rows d). ident r < next_ident s"
    by (simp_all add: data_ok_def list_all_iff)
  from old have fresh: "next_ident s \<notin> set (map ident (rows d))" by auto
  have "map ident ((rows d)[p := ?r]) = (map ident (rows d))[p := next_ident s]"
    by (simp add: map_update)
  with dis fresh have "distinct (map ident ((rows d)[p := ?r]))"
    by (simp add: distinct_list_update)
  moreover have "\<forall>r \<in> set ((rows d)[p := ?r]). ident r < Suc (next_ident s)"
  proof
    fix r assume "r \<in> set ((rows d)[p := ?r])"
    then have "r = ?r \<or> r \<in> set (rows d)"
      using set_update_subset_insert [of "rows d" p ?r] by auto
    with old show "ident r < Suc (next_ident s)" by auto
  qed
  ultimately show ?thesis
    by (simp add: data_ok_def committed_def list_all_iff)
qed

lemma data_ok_handle:
  assumes "data_ok s"
  shows "data_ok (handle e s)"
proof (cases e)
  case (LoadData hs cs name fid)
  then show ?thesis using data_ok_new_rows [of "next_ident s" cs]
    by (simp add: loadData_def data_ok_def)
next
  case SaveChanges
  show ?thesis
    using saveChanges_cases [of s] assms SaveChanges
    by (auto simp: data_ok_committed dest: indexOf_Some)
next
  case (AddColumn name)
  show ?thesis
  proof (cases "data s")
    case None
    with AddColumn assms show ?thesis by (simp add: addColumn_def)
  next
    case (Some d)
    let ?cs = "map (\<lambda>r. AList.update (trim name) (Str []) (content r)) (rows d)"
    from data_ok_new_rows [of "next_ident s" ?cs]
    show ?thesis using AddColumn Some assms
      by (simp add: addColumn_def data_ok_def Let_def)
  qed
qed (use assms in \<open>simp_all add: data_ok_def setSearchQuery_def toggleSort_def toggleColumn_def
      toggleColumnFilterValue_def clearColumnFilter_def handleRowClick_def navigateRecord_def
      discardChanges_def handleFieldUpdate_def moveColumn_def resetApp_def
      closePanelBackdrop_def closePanelButton_def Let_def split: option.splits\<close>)

lemma wf_step: "wf_state s \<Longrightarrow> wf_state (step e s)"
  unfolding step_def
  by (rule wf_render [of s])
    (simp_all add: memo_handle pending_handle filters_handle data_ok_handle wf_state_def)

lemma wf_run: "wf_state s \<Longrightarrow> wf_state (run es s)"
  by (induction es arbitrary: s) (simp_all add: wf_step)

lemma step_checked_Some: "step_checked e s = Some s' \<Longrightarrow> s' = step e s \<and> \<not> render_throws s'"
  by (auto simp: step_checked_def Let_def split: if_splits)

lemma run_checked_Some: "run_checked es s = Some s' \<Longrightarrow> s' = run es s"
  by (induction es arbitrary: s) (auto split: option.splits dest: step_checked_Some)

lemma reachable_wf: "reachable s \<Longrightarrow> wf_state s"
  by (induction rule: reachable.induct) (auto simp: wf_initial wf_step dest: step_checked_Some)

lemma reachable_run: "reachable s \<Longrightarrow> run_checked es s = Some s' \<Longrightarrow> reachable s'"
  by (induction es arbitrary: s) (auto split: option.splits intro: reachable_step)

subsection \<open>Column visibility\<close>

lemma toggleColumn_nonempty:
  "visibleColumns s \<noteq> {||} \<Longrightarrow> visibleColumns (toggleColumn h s) \<noteq> {||}"
proof -
  assume ne: "visibleColumns s \<noteq> {||}"
  have "fcard (visibleColumns s) > 1 \<Longrightarrow> visibleColumns s |-| {|h|} \<noteq> {||}"
  proof
    assume big: "fcard (visibleColumns s) > 1" and e: "visibleColumns s |-| {|h|} = {||}"
    have "fcard (visibleColumns s) - 1 \<le> fcard (visibleColumns s |-| {|h|})"
      by (simp add: fcard_fminus_fsingleton_if)
    moreover from e have "fcard (visibleColumns s |-| {|h|}) = 0"
      by (simp only: fcard_fempty)
    ultimately show False using big by arith
  qed
  with ne show ?thesis by (auto simp: toggleColumn_def Let_def)
qed

lemma toggleColumn_last: "visibleColumns s = {|h|} \<Longrightarrow> toggleColumn h s = s"
  by (simp add: toggleColumn_def Let_def fcard_finsert_if fcard_fempty)

subsection \<open>Column filters\<close>

lemma fcard_pos: "0 < fcard A \<longleftrightarrow> A \<noteq> {||}"
  using fcard_0_eq [of A] by (auto simp: fcard_fempty)

lemma entry_ok_empty [simp]: "entry_ok r (c, {||})"
  by (simp add: entry_ok_def fcard_fempty)

lemma entry_ok_nonempty:
  "vals \<noteq> {||} \<Longrightarrow> entry_ok r (c, vals) = (String_or_empty (get_field r c) |\<in>| vals)"
  by (simp add: entry_ok_def)

lemma filter_entry_eq: "filter_entry rs e = filter (\<lambda>r. entry_ok r e) rs"
proof (cases e)
  case (Pair c vals)
  show ?thesis
  proof (cases "vals = {||}")
    case True
    with Pair show ?thesis by (simp add: filter_entry_def fcard_fempty)
  next
    case False
    with Pair show ?thesis by (simp add: filter_entry_def fcard_pos entry_ok_nonempty)
  qed
qed

lemma column_filter_step_eq:
  "column_filter_step cf rs = filter (\<lambda>r. list_all (entry_ok r) cf) rs"
proof (induction cf arbitrary: rs)
  case Nil
  show ?case by (simp add: column_filter_step_def)
next
  case (Cons e cf)
  have "column_filter_step (e # cf) rs = column_filter_step cf (filter_entry rs e)"
    by (simp add: column_filter_step_def)
  also have "\<dots> = filter (\<lambda>r. list_all (entry_ok r) cf) (filter (\<lambda>r. entry_ok r e) rs)"
    by (simp only: Cons.IH filter_entry_eq)
  also have "\<dots> = filter (\<lambda>r. list_all (entry_ok r) (e # cf)) rs"
    by (simp add: conj_commute)
  finally show ?case .
qed

lemma list_all_entry_delete:
  "list_all (entry_ok r) (AList.delete c cf) = list_all (\<lambda>e. fst e = c \<or> entry_ok r e) cf"
  by (induction cf) (auto simp: AList.delete_eq)

lemma list_all_entry_absent:
  "c \<notin> fst ` set cf \<Longrightarrow> list_all (\<lambda>e. fst e = c \<or> entry_ok r e) cf = list_all (entry_ok r) cf"
  by (induction cf) auto

lemma list_all_entry_update:
  "distinct (map fst cf) \<Longrightarrow>
   list_all (entry_ok r) (AList.update c vals cf) =
     (entry_ok r (c, vals) \<and> list_all (\<lambda>e. fst e = c \<or> entry_ok r e) cf)"
proof (induction cf)
  case Nil
  show ?case by simp
next
  case (Cons e cf)
  obtain k t where e: "e = (k, t)" by (cases e)
  show ?case
  proof (cases "k = c")
    case True
    with Cons.prems e have "c \<notin> fst ` set cf" by simp
    then have "list_all (\<lambda>e. fst e = c \<or> entry_ok r e) cf = list_all (entry_ok r) cf"
      by (rule list_all_entry_absent)
    with True e show ?thesis by simp
  next
    case False
    with Cons e show ?thesis by auto
  qed
qed

lemma list_all_entry_split:
  "distinct (map fst cf) \<Longrightarrow>
   list_all (entry_ok r) cf =
     (entry_ok r (c, accepted cf c) \<and> list_all (\<lambda>e. fst e = c \<or> entry_ok r e) cf)"
proof (induction cf)
  case Nil
  show ?case by (simp add: accepted_def entry_ok_def fcard_fempty)
next
  case (Cons e cf)
  obtain k t where e: "e = (k, t)" by (cases e)
  show ?case
  proof (cases "k = c")
    case True
    with Cons.prems e have "c \<notin> fst ` set cf" by simp
    then have "list_all (\<lambda>e. fst e = c \<or> entry_ok r e) cf = list_all (entry_ok r) cf"
      by (rule list_all_entry_absent)
    with True e show ?thesis by (simp add: accepted_def)
  next
    case False
    with Cons e show ?thesis by (auto simp: accepted_def)
  qed
qed

lemma length_filter_mono:
  "(\<And>x. P x \<Longrightarrow> Q x) \<Longrightarrow> length (filter P xs) \<le> length (filter Q xs)"
  by (induction xs) auto

lemma length_sort_step [simp]: "length (sort_step cfg rs) = length rs"
  by (simp add: sort_step_def split: option.splits)

text \<open>The number of rows of the pipeline, as a count of the rows that pass every filter entry.\<close>

lemma length_pipeline:
  "data s = Some d \<Longrightarrow>
   length (pipeline s) =
     length (filter (\<lambda>r. list_all (entry_ok r) (columnFilters s)) (search_step (searchQuery s) (rows d)))"
  by (simp add: pipeline_def compute_filteredRows_def column_filter_step_eq)

lemma pipeline_no_data: "data s = None \<Longrightarrow> pipeline s = []"
  by (simp add: pipeline_def)

lemma toggle_fields [simp]:
  "data (toggleColumnFilterValue c v s) = data s"
  "searchQuery (toggleColumnFilterValue c v s) = searchQuery s"
  "sortConfig (toggleColumnFilterValue c v s) = sortConfig s"
  by (simp_all add: toggleColumnFilterValue_def Let_def)

lemma toggle_filters:
  "columnFilters (toggleColumnFilterValue c v s) =
     (let vals = (if v |\<in>| accepted (columnFilters s) c
                  then accepted (columnFilters s) c |-| {|v|}
                  else finsert v (accepted (columnFilters s) c))
      in if vals = {||} then AList.delete c (columnFilters s)
         else AList.update c vals (columnFilters s))"
  by (simp add: toggleColumnFilterValue_def accepted_def Let_def)

text \<open>Whether a row passes the filters after the toggle, by the accepted set the toggle leaves.\<close>

lemma passes_after_toggle:
  assumes "distinct (map fst (columnFilters s))"
  shows "list_all (entry_ok r) (columnFilters (toggleColumnFilterValue c v s)) =
     (entry_ok r (c, if v |\<in>| accepted (columnFilters s) c
                     then accepted (columnFilters s) c |-| {|v|}
                     else finsert v (accepted (columnFilters s) c)) \<and>
      list_all (\<lambda>e. fst e = c \<or> entry_ok r e) (columnFilters s))"
  using assms
  by (simp add: toggle_filters Let_def list_all_entry_delete list_all_entry_update)

subsection \<open>Evaluating the examples\<close>

lemmas handler_defs = loadData_def setSearchQuery_def toggleSort_def toggleColumn_def
  toggleColumnFilterValue_def clearColumnFilter_def handleRowClick_def navigateRecord_def
  discardChanges_def handleFieldUpdate_def saveChanges_def addColumn_def moveColumn_def
  resetApp_def closePanelBackdrop_def closePanelButton_def

lemmas pipeline_defs = pipeline_def compute_filteredRows_def sort_step_def column_filter_step_def
  filter_entry_def search_step_def row_matches_def array_sort_def compare_rows_def get_field_def
  toLowerCase_def lower_char_def

lemmas eval_defs = initial_state_def step_def render_def new_rows_def filteredRows_def

lemma sorted_example_facts:
  "data sorted_example = Some sorted_example_data"
  "filteredRows sorted_example =
     [\<lparr>ident = 1, content = [(''A'', Str ''2''), (''B'', Str ''y'')]\<rparr>,
      \<lparr>ident = 0, content = [(''A'', Str ''1''), (''B'', Str ''x'')]\<rparr>]"
  by (simp_all add: sorted_example_def sorted_example_data_def eval_defs handler_defs pipeline_defs)

lemma wf_sorted_example: "wf_state sorted_example"
  unfolding sorted_example_def by (rule wf_run [OF wf_initial])

lemma duplicate_example_facts:
  "data duplicate_example = Some duplicate_example_data"
  "filteredRows duplicate_example = rows duplicate_example_data"
  "selectedIndex duplicate_example = Some 1"
  "pendingChanges duplicate_example = [(''A'', Str ''9'')]"
  by (simp_all add: duplicate_example_def duplicate_example_data_def eval_defs handler_defs pipeline_defs)

lemma wf_duplicate_example: "wf_state duplicate_example"
  unfolding duplicate_example_def by (rule wf_run [OF wf_initial])

subsection \<open>Events on a rendered state\<close>

lemma render_synced:
  "memo s = Some ((data s, searchQuery s, sortConfig s), v) \<Longrightarrow> render s = s"
  by (simp add: render_def)

lemma step_HandleRowClick:
  "wf_state s \<Longrightarrow> step (HandleRowClick i) s = handleRowClick (int i) s"
  by (simp add: step_def wf_state_def handleRowClick_def render_synced)

lemma step_HandleFieldUpdate:
  "wf_state s \<Longrightarrow> step (HandleFieldUpdate h v) s = handleFieldUpdate h v s"
  by (simp add: step_def wf_state_def handleFieldUpdate_def render_synced)

lemma committed_rows:
  "data (committed s d p) =
     Some (d\<lparr>rows := (rows d)[p := \<lparr>ident = next_ident s,
        content = spread (content (rows d ! p)) (pendingChanges s)\<rparr>]\<rparr>)"
  by (simp add: committed_def)

lemma filter_example_facts:
  "columnFilters filter_example = [(''A'', {|''x''|})]"
  "map content (filteredRows filter_example) = [[(''A'', Str ''x'')], [(''A'', Str ''y'')]]"
  "map content (pipeline filter_example) = [[(''A'', Str ''x'')]]"
  "map content (pipeline (toggleColumnFilterValue ''A'' ''y'' filter_example)) =
     [[(''A'', Str ''x'')], [(''A'', Str ''y'')]]"
  "columnFilters (toggleColumnFilterValue ''A'' ''y'' filter_example) = [(''A'', {|''y'', ''x''|})]"
  "columnFilters (toggleColumnFilterValue ''A'' ''x'' filter_example) = []"
  "map content (pipeline (toggleColumnFilterValue ''A'' ''x'' filter_example)) =
     [[(''A'', Str ''x'')], [(''A'', Str ''y'')]]"
  "map content (pipeline (toggleColumnFilterValue ''A'' ''y''
      (toggleColumnFilterValue ''A'' ''y'' filter_example))) = [[(''A'', Str ''x'')]]"
  by (simp_all add: filter_example_def eval_defs handler_defs pipeline_defs)

lemma unfiltered_example_facts:
  "columnFilters unfiltered_example = []"
  "map content (pipeline unfiltered_example) = [[(''A'', Str ''x'')], [(''A'', Str ''y'')]]"
  "map content (pipeline (toggleColumnFilterValue ''A'' ''x'' unfiltered_example)) = [[(''A'', Str ''x'')]]"
  by (simp_all add: unfiltered_example_def eval_defs handler_defs pipeline_defs)

lemma dirty_example_facts:
  "pendingChanges dirty_example = [(''A'', Str ''9'')]"
  "selectedIndex dirty_example = Some 0"
  "isPanelOpen dirty_example = True"
  "map content (filteredRows dirty_example) = [[(''A'', Str ''1'')], [(''A'', Str ''2'')]]"
  by (simp_all add: dirty_example_def eval_defs handler_defs pipeline_defs)

lemma step_fields [simp]:
  "data (step e s) = data (handle e s)"
  "selectedIndex (step e s) = selectedIndex (handle e s)"
  "isPanelOpen (step e s) = isPanelOpen (handle e s)"
  "pendingChanges (step e s) = pendingChanges (handle e s)"
  "columnOrder (step e s) = columnOrder (handle e s)"
  "visibleColumns (step e s) = visibleColumns (handle e s)"
  "alerts (step e s) = alerts (handle e s)"
  by (simp_all add: step_def)

lemma unfiltered_example_data:
  "data unfiltered_example = Some unfiltered_data"
  "alerts unfiltered_example = []"
  "columnOrder unfiltered_example = [''A'']"
  "visibleColumns unfiltered_example = {|''A''|}"
  by (simp_all add: unfiltered_example_def unfiltered_data_def eval_defs handler_defs pipeline_defs)

subsection \<open>Trimming\<close>

lemma whitespace_nonempty: "w \<in> set whitespace \<Longrightarrow> w \<noteq> []"
  unfolding whitespace_def by (elim rev_mp) simp

lemma leading_space_Some:
  assumes "leading_space s = Some w"
  shows "w \<in> set whitespace" and "w \<noteq> []" and "s = w @ drop (length w) s"
proof -
  from assms have "w \<in> set whitespace" and p: "prefix w s"
    by (auto simp: leading_space_def find_Some_iff)
  then show "w \<in> set whitespace" and "w \<noteq> []"
    by (simp_all add: whitespace_nonempty)
  from p show "s = w @ drop (length w) s"
    by (auto simp: prefix_def)
qed

lemma trailing_space_Some:
  assumes "trailing_space s = Some w"
  shows "w \<in> set whitespace" and "w \<noteq> []" and "s = take (length s - length w) s @ w"
proof -
  from assms have "w \<in> set whitespace" and p: "prefix (rev w) (rev s)"
    by (auto simp: trailing_space_def find_Some_iff)
  then show "w \<in> set whitespace" and "w \<noteq> []"
    by (simp_all add: whitespace_nonempty)
  from p have "suffix w s" by (simp add: suffix_to_prefix)
  then show "s = take (length s - length w) s @ w"
    by (auto simp: suffix_def)
qed

lemma whitespace_length: "w \<in> set whitespace \<Longrightarrow> length w = lead_length (hd w)"
  unfolding whitespace_def lead_length_def by (elim rev_mp) simp

lemma whitespace_prefix_free:
  assumes "a \<in> set whitespace" and "b \<in> set whitespace" and "prefix a b"
  shows "a = b"
proof -
  from assms(1) have "a \<noteq> []" by (rule whitespace_nonempty)
  with assms(3) have "hd a = hd b" by (auto simp: prefix_def)
  with assms(1,2) have "length a = length b" by (simp add: whitespace_length)
  with assms(3) show ?thesis by (auto simp: prefix_def)
qed

lemma leading_space_code:
  assumes "w \<in> set whitespace"
  shows "leading_space (w @ t) = Some w"
proof -
  from assms have "\<exists>x \<in> set whitespace. prefix x (w @ t)"
    by (intro bexI [of _ w]) simp_all
  then have "leading_space (w @ t) \<noteq> None"
    by (auto simp: leading_space_def find_None_iff)
  then obtain v where v: "leading_space (w @ t) = Some v"
    by blast
  then have "v \<in> set whitespace" and "prefix v (w @ t)"
    by (auto simp: leading_space_def find_Some_iff)
  then have "prefix v w \<or> prefix w v"
    by (metis prefixI prefix_same_cases)
  with assms \<open>v \<in> set whitespace\<close> have "v = w"
    using whitespace_prefix_free by blast
  with v show ?thesis by simp
qed

lemma leading_space_NoneD: "leading_space s = None \<Longrightarrow> w \<in> set whitespace \<Longrightarrow> \<not> prefix w s"
  by (auto simp: leading_space_def find_None_iff)

lemma leading_space_Nil [simp]: "leading_space [] = None"
  by (auto simp: leading_space_def find_None_iff dest: whitespace_nonempty)

lemma trailing_space_Nil [simp]: "trailing_space [] = None"
  by (auto simp: trailing_space_def find_None_iff dest: whitespace_nonempty)

lemma trimStart_Nil [simp]: "trimStart [] = []"
  by (simp add: trimStart.simps)

lemma trimEnd_Nil [simp]: "trimEnd [] = []"
  by (simp add: trimEnd.simps)

lemma trimStart_code: "w \<in> set whitespace \<Longrightarrow> trimStart (w @ t) = trimStart t"
  by (subst trimStart.simps) (simp add: leading_space_code)

lemma blank_Nil [simp]: "blank []"
  by (simp add: blank_def)

lemma blank_code: "w \<in> set whitespace \<Longrightarrow> blank t \<Longrightarrow> blank (w @ t)"
  by (simp add: blank_def trimStart_code)

lemma blank_append: "blank a \<Longrightarrow> blank b \<Longrightarrow> blank (a @ b)"
proof (induction a rule: trimStart.induct)
  case (1 s)
  show ?case
  proof (cases "leading_space s")
    case None
    with "1.prems"(1) have "s = []"
      by (simp add: blank_def trimStart.simps)
    with "1.prems"(2) show ?thesis by simp
  next
    case (Some w)
    then have w: "w \<in> set whitespace" and s: "s = w @ drop (length w) s"
      by (rule leading_space_Some)+
    from Some "1.prems"(1) have "blank (drop (length w) s)"
      by (simp add: blank_def trimStart.simps [of s])
    with "1.IH" [OF Some] "1.prems"(2) have "blank (drop (length w) s @ b)" by simp
    with w have "blank (w @ drop (length w) s @ b)" by (rule blank_code)
    with s show ?thesis by (metis append.assoc)
  qed
qed

lemma trimStart_decompose: "\<exists>a. s = a @ trimStart s \<and> blank a"
proof (induction s rule: trimStart.induct)
  case (1 s)
  show ?case
  proof (cases "leading_space s")
    case None
    then have "s = [] @ trimStart s \<and> blank []"
      by (simp add: trimStart.simps)
    then show ?thesis by blast
  next
    case (Some w)
    then have w: "w \<in> set whitespace" and s: "s = w @ drop (length w) s"
      by (rule leading_space_Some)+
    from "1.IH" [OF Some] obtain a where
      a: "drop (length w) s = a @ trimStart (drop (length w) s)" "blank a" by blast
    from Some have t: "trimStart s = trimStart (drop (length w) s)"
      by (simp add: trimStart.simps [of s])
    from s a(1) t have "s = (w @ a) @ trimStart s" by (metis append.assoc)
    moreover from w a(2) have "blank (w @ a)" by (rule blank_code)
    ultimately show ?thesis by blast
  qed
qed

lemma trimEnd_decompose: "\<exists>b. s = trimEnd s @ b \<and> blank b"
proof (induction s rule: trimEnd.induct)
  case (1 s)
  show ?case
  proof (cases "trailing_space s")
    case None
    then have "s = trimEnd s @ [] \<and> blank []"
      by (simp add: trimEnd.simps)
    then show ?thesis by blast
  next
    case (Some w)
    let ?t = "take (length s - length w) s"
    from Some have w: "w \<in> set whitespace" and s: "s = ?t @ w"
      by (rule trailing_space_Some)+
    from "1.IH" [OF Some] obtain b where b: "?t = trimEnd ?t @ b" "blank b" by blast
    from Some have t: "trimEnd s = trimEnd ?t"
      by (simp add: trimEnd.simps [of s])
    from w have "blank (w @ [])" by (intro blank_code) simp_all
    with b(2) have "blank (b @ w)" by (simp add: blank_append)
    moreover from s b(1) t have "s = trimEnd s @ (b @ w)" by (metis append.assoc)
    ultimately show ?thesis by blast
  qed
qed

lemma leading_space_trimStart [simp]: "leading_space (trimStart s) = None"
proof (induction s rule: trimStart.induct)
  case (1 s)
  show ?case
  proof (cases "leading_space s")
    case None
    then show ?thesis by (simp add: trimStart.simps [of s])
  next
    case (Some w)
    with "1.IH" show ?thesis by (simp add: trimStart.simps [of s])
  qed
qed

lemma trailing_space_trimEnd [simp]: "trailing_space (trimEnd s) = None"
proof (induction s rule: trimEnd.induct)
  case (1 s)
  show ?case
  proof (cases "trailing_space s")
    case None
    then show ?thesis by (simp add: trimEnd.simps [of s])
  next
    case (Some w)
    with "1.IH" show ?thesis by (simp add: trimEnd.simps [of s])
  qed
qed

lemma trim_decompose: "\<exists>a b. s = a @ trim s @ b \<and> blank a \<and> blank b"
proof -
  obtain a where a: "s = a @ trimStart s" "blank a"
    using trimStart_decompose by blast
  obtain b where b: "trimStart s = trimEnd (trimStart s) @ b" "blank b"
    using trimEnd_decompose by blast
  from a(1) b(1) have "s = a @ trim s @ b" by (simp add: trim_def)
  with a(2) b(2) show ?thesis by blast
qed

lemma trim_ends: "leading_space (trim s) = None \<and> trailing_space (trim s) = None"
proof -
  obtain b where b: "trimStart s = trim s @ b"
    using trimEnd_decompose [of "trimStart s"] by (auto simp: trim_def)
  have "leading_space (trim s) = None"
  proof (rule ccontr)
    assume "leading_space (trim s) \<noteq> None"
    then obtain w where "leading_space (trim s) = Some w" by auto
    then have w: "w \<in> set whitespace" and "trim s = w @ drop (length w) (trim s)"
      by (rule leading_space_Some)+
    with b have "prefix w (trimStart s)"
      by (metis append.assoc prefixI)
    with w show False
      using leading_space_NoneD [OF leading_space_trimStart] by blast
  qed
  then show ?thesis by (simp add: trim_def)
qed

lemma trim_empty_iff: "trim s = [] \<longleftrightarrow> blank s"
proof
  assume e: "trim s = []"
  obtain a b where "s = a @ trim s @ b" "blank a" "blank b"
    using trim_decompose by blast
  with e show "blank s" by (simp add: blank_append)
next
  assume "blank s"
  then show "trim s = []" by (simp add: trim_def blank_def)
qed

lemma blank_concat: "blank s \<longleftrightarrow> (\<exists>ws. set ws \<subseteq> set whitespace \<and> s = concat ws)"
proof
  show "blank s \<Longrightarrow> \<exists>ws. set ws \<subseteq> set whitespace \<and> s = concat ws"
  proof (induction s rule: trimStart.induct)
    case (1 s)
    show ?case
    proof (cases "leading_space s")
      case None
      with "1.prems" have "s = concat []"
        by (simp add: blank_def trimStart.simps)
      then show ?thesis by (intro exI [of _ "[]"]) simp
    next
      case (Some w)
      then have w: "w \<in> set whitespace" and s: "s = w @ drop (length w) s"
        by (rule leading_space_Some)+
      from Some "1.prems" have "blank (drop (length w) s)"
        by (simp add: blank_def trimStart.simps [of s])
      with "1.IH" [OF Some] obtain ws where
        ws: "set ws \<subseteq> set whitespace" "drop (length w) s = concat ws" by blast
      from s ws(2) have "s = concat (w # ws)" by simp
      with w ws(1) show ?thesis by (intro exI [of _ "w # ws"]) simp
    qed
  qed
next
  assume "\<exists>ws. set ws \<subseteq> set whitespace \<and> s = concat ws"
  then obtain ws where "set ws \<subseteq> set whitespace" and "s = concat ws" by blast
  then show "blank s"
    by (induction ws arbitrary: s) (simp_all add: blank_code)
qed

lemma trim_no_space:
  assumes "w \<in> set whitespace"
  shows "\<not> prefix w (trim s)" and "\<not> suffix w (trim s)"
proof -
  from trim_ends [of s] have l: "leading_space (trim s) = None" and t: "trailing_space (trim s) = None"
    by simp_all
  from l assms show "\<not> prefix w (trim s)"
    by (rule leading_space_NoneD)
  from t assms have "\<not> prefix (rev w) (rev (trim s))"
    by (auto simp: trailing_space_def find_None_iff)
  then show "\<not> suffix w (trim s)"
    by (simp add: suffix_to_prefix)
qed

lemmas trim_eval = trim_def trimStart.simps trimEnd.simps leading_space_def trailing_space_def
  whitespace_def blank_def

lemma trim_examples:
  "trim '' A'' = ''A''" "trim '' '' = []" "trim ''  B '' = ''B''" "trim [] = []" "trim ''B'' = ''B''"
  "trim ([CHR 0xC2, CHR 0xA0] @ ''A'') = ''A''" "trim ''C'' = ''C''"
  "trim ('' '' @ [CHR 0xE3, CHR 0x80, CHR 0x80]) = []"
  "trim ([CHR 0xEF, CHR 0xBB, CHR 0xBF] @ ''B'' @ [CHR 0xE2, CHR 0x80, CHR 0xA8]) = ''B''"
  by (simp_all add: trim_eval)

subsection \<open>Adding a column\<close>

lemma addColumn_blank: "trim name = [] \<Longrightarrow> addColumn name s = s"
  by (simp add: addColumn_def split: option.splits)

lemma addColumn_duplicate:
  "data s = Some d \<Longrightarrow> trim name \<noteq> [] \<Longrightarrow> trim name \<in> set (headers d) \<Longrightarrow>
   addColumn name s = s\<lparr>alerts := alerts s @ [''Column already exists'']\<rparr>"
  by (simp add: addColumn_def)

lemma addColumn_new:
  "data s = Some d \<Longrightarrow> trim name \<noteq> [] \<Longrightarrow> trim name \<notin> set (headers d) \<Longrightarrow>
   addColumn name s =
     s\<lparr>data := Some (d\<lparr>headers := headers d @ [trim name],
                       rows := new_rows (next_ident s)
                         (map (\<lambda>r. AList.update (trim name) (Str []) (content r)) (rows d))\<rparr>),
       visibleColumns := finsert (trim name) (visibleColumns s),
       columnOrder := columnOrder s @ [trim name],
       isAddingColumn := False,
       newColumnName := [],
       next_ident := next_ident s + length (rows d)\<rparr>"
  by (simp add: addColumn_def Let_def)

lemma new_rows_maps:
  "map (\<lambda>r. map_of (content r)) (new_rows n (map (\<lambda>r. AList.update k v (content r)) rs)) =
   map (\<lambda>r. (map_of (content r))(k \<mapsto> v)) rs"
proof -
  have "map (\<lambda>r. map_of (content r)) (new_rows n (map (\<lambda>r. AList.update k v (content r)) rs)) =
      map map_of (map content (new_rows n (map (\<lambda>r. AList.update k v (content r)) rs)))"
    by (simp add: comp_def)
  also have "\<dots> = map map_of (map (\<lambda>r. AList.update k v (content r)) rs)"
    by (simp only: content_new_rows)
  also have "\<dots> = map (\<lambda>r. (map_of (content r))(k \<mapsto> v)) rs"
    by (simp add: comp_def update_conv')
  finally show ?thesis .
qed



subsection \<open>The render after an event\<close>

lemma run_checked_append:
  "run_checked (es @ [e]) s = (case run_checked es s of None \<Rightarrow> None | Some s' \<Rightarrow> step_checked e s')"
  by (induction es arbitrary: s) (simp_all split: option.splits)

lemma render_throws_selected:
  "selectedIndex s = Some j \<Longrightarrow> array_get (filteredRows s) j \<noteq> None \<Longrightarrow> \<not> render_throws s"
  by (auto simp: render_throws_def)

lemma render_throws_empty_buffer:
  "data s \<noteq> None \<Longrightarrow> isPanelOpen s \<Longrightarrow> selectedIndex s = Some j \<Longrightarrow> pendingChanges s = [] \<Longrightarrow>
   render_throws s \<longleftrightarrow> array_get (filteredRows s) j = None"
  by (simp add: render_throws_def)

lemma step_checked_HandleRowClick:
  assumes "wf_state s" and "i < length (filteredRows s)"
  shows "step_checked (HandleRowClick i) s = Some (handleRowClick (int i) s)"
proof -
  have "filteredRows (handleRowClick (int i) s) = filteredRows s"
    by (simp add: handleRowClick_def filteredRows_def)
  with assms(2) have "\<not> render_throws (handleRowClick (int i) s)"
    by (intro render_throws_selected [of _ "int i"]) (simp_all add: handleRowClick_def array_get_def)
  with assms(1) show ?thesis
    by (simp add: step_checked_def step_HandleRowClick)
qed

lemma step_checked_HandleFieldUpdate:
  assumes "wf_state s" and "selectedIndex s = Some (int i)" and "i < length (filteredRows s)"
  shows "step_checked (HandleFieldUpdate h v) s = Some (handleFieldUpdate h v s)"
proof -
  have "filteredRows (handleFieldUpdate h v s) = filteredRows s"
    by (simp add: handleFieldUpdate_def filteredRows_def)
  with assms(2,3) have "\<not> render_throws (handleFieldUpdate h v s)"
    by (intro render_throws_selected [of _ "int i"]) (simp_all add: handleFieldUpdate_def array_get_def)
  with assms(1) show ?thesis
    by (simp add: step_checked_def step_HandleFieldUpdate)
qed

lemmas checked_defs = step_checked_def render_throws_def first_column_def array_get_def spread_def

text \<open>
  A commit after which the render throws: the edited row no longer matches the search, the
  recomputed view is empty and the open panel reads its row at index 0.
\<close>

lemma searched_example_throws:
  "run_checked [LoadData [''A''] [[(''A'', Str ''x'')], [(''A'', Str ''y'')]] ''f.csv'' None,
     SetSearchQuery ''x'', HandleRowClick 0, HandleFieldUpdate ''A'' ''q''] initial_state =
     Some searched_example"
  "map content (filteredRows searched_example) = [[(''A'', Str ''x'')]]"
  "filteredRows (step SaveChanges searched_example) = []"
  "step_checked SaveChanges searched_example = None"
  by (simp_all add: searched_example_def checked_defs eval_defs handler_defs pipeline_defs)

subsection \<open>The states of the examples with a staged edit\<close>

lemma dirty_example_state:
  "dirty_example =
     \<lparr>data = Some \<lparr>headers = [''A''],
                    rows = [\<lparr>ident = 0, content = [(''A'', Str ''1'')]\<rparr>,
                            \<lparr>ident = 1, content = [(''A'', Str ''2'')]\<rparr>],
                    fileName = ''f.csv'', fileId = None\<rparr>,
      searchQuery = [], selectedIndex = Some 0, isPanelOpen = True,
      sortConfig = \<lparr>key = None, direction = Asc\<rparr>,
      visibleColumns = {|''A''|}, columnOrder = [''A''],
      columnFilters = [], isAddingColumn = False, newColumnName = [],
      pendingChanges = [(''A'', Str ''9'')], editingField = None, alerts = [],
      next_ident = 2,
      memo = Some ((Some \<lparr>headers = [''A''],
                           rows = [\<lparr>ident = 0, content = [(''A'', Str ''1'')]\<rparr>,
                                   \<lparr>ident = 1, content = [(''A'', Str ''2'')]\<rparr>],
                           fileName = ''f.csv'', fileId = None\<rparr>,
                    [], \<lparr>key = None, direction = Asc\<rparr>),
                   [\<lparr>ident = 0, content = [(''A'', Str ''1'')]\<rparr>,
                    \<lparr>ident = 1, content = [(''A'', Str ''2'')]\<rparr>])\<rparr>"
  by (simp add: dirty_example_def eval_defs handler_defs pipeline_defs)

lemma staged_example_state:
  "staged_example =
     \<lparr>data = Some \<lparr>headers = [''A'', ''B''],
                    rows = [\<lparr>ident = 0, content = [(''A'', Str ''1''), (''B'', Str ''x'')]\<rparr>,
                            \<lparr>ident = 1, content = [(''A'', Str ''2''), (''B'', Str ''y'')]\<rparr>],
                    fileName = ''f.csv'', fileId = None\<rparr>,
      searchQuery = [], selectedIndex = Some 0, isPanelOpen = True,
      sortConfig = \<lparr>key = None, direction = Asc\<rparr>,
      visibleColumns = {|''A'', ''B''|}, columnOrder = [''A'', ''B''],
      columnFilters = [(''A'', {|''2''|})], isAddingColumn = False, newColumnName = [],
      pendingChanges = [(''B'', Str ''z'')], editingField = None, alerts = [],
      next_ident = 2,
      memo = Some ((Some \<lparr>headers = [''A'', ''B''],
                           rows = [\<lparr>ident = 0, content = [(''A'', Str ''1''), (''B'', Str ''x'')]\<rparr>,
                                   \<lparr>ident = 1, content = [(''A'', Str ''2''), (''B'', Str ''y'')]\<rparr>],
                           fileName = ''f.csv'', fileId = None\<rparr>,
                    [], \<lparr>key = None, direction = Asc\<rparr>),
                   [\<lparr>ident = 0, content = [(''A'', Str ''1''), (''B'', Str ''x'')]\<rparr>,
                    \<lparr>ident = 1, content = [(''A'', Str ''2''), (''B'', Str ''y'')]\<rparr>])\<rparr>"
  by (simp add: staged_example_def eval_defs handler_defs pipeline_defs)

lemma staged_example_checked:
  "run_checked
     [LoadData [''A'', ''B'']
        [[(''A'', Str ''1''), (''B'', Str ''x'')], [(''A'', Str ''2''), (''B'', Str ''y'')]]
        ''f.csv'' None,
      ToggleColumnFilterValue ''A'' ''2'', HandleRowClick 0, HandleFieldUpdate ''B'' ''z'']
     initial_state = Some staged_example"
  by (simp add: staged_example_state)
    (simp add: checked_defs eval_defs handler_defs pipeline_defs Let_def)

lemma carry_example_state:
  "carry_example =
     \<lparr>data = Some \<lparr>headers = [''A'', ''B'', ''C''],
                    rows = [\<lparr>ident = 2, content = [(''A'', Str ''1''), (''B'', Str ''x''), (''C'', Str [])]\<rparr>,
                            \<lparr>ident = 3, content = [(''A'', Str ''2''), (''B'', Str ''y''), (''C'', Str [])]\<rparr>],
                    fileName = ''f.csv'', fileId = None\<rparr>,
      searchQuery = [], selectedIndex = Some 0, isPanelOpen = True,
      sortConfig = \<lparr>key = None, direction = Asc\<rparr>,
      visibleColumns = {|''C'', ''A'', ''B''|}, columnOrder = [''A'', ''B'', ''C''],
      columnFilters = [(''A'', {|''2''|})], isAddingColumn = False, newColumnName = [],
      pendingChanges = [(''B'', Str ''z'')], editingField = None, alerts = [],
      next_ident = 4,
      memo = Some ((Some \<lparr>headers = [''A'', ''B'', ''C''],
                           rows = [\<lparr>ident = 2, content = [(''A'', Str ''1''), (''B'', Str ''x''), (''C'', Str [])]\<rparr>,
                                   \<lparr>ident = 3, content = [(''A'', Str ''2''), (''B'', Str ''y''), (''C'', Str [])]\<rparr>],
                           fileName = ''f.csv'', fileId = None\<rparr>,
                    [], \<lparr>key = None, direction = Asc\<rparr>),
                   [\<lparr>ident = 3, content = [(''A'', Str ''2''), (''B'', Str ''y''), (''C'', Str [])]\<rparr>])\<rparr>"
  unfolding carry_example_def staged_example_state
  by (simp add: eval_defs handler_defs pipeline_defs trim_examples Let_def)

lemma carry_example_checked:
  "run_checked [SetIsAddingColumn True, SetNewColumnName ''C'', AddColumn ''C''] staged_example =
     Some carry_example"
  unfolding carry_example_state unfolding staged_example_state
  by (simp add: checked_defs eval_defs handler_defs pipeline_defs trim_examples Let_def)

lemma dirty_example_moves:
  "step_checked (NavigateRecord Next) dirty_example = Some (step (NavigateRecord Next) dirty_example)"
  "selectedIndex (step (NavigateRecord Next) dirty_example) = Some 1"
  "pendingChanges (step (NavigateRecord Next) dirty_example) = []"
  "data (step (NavigateRecord Next) dirty_example) = data dirty_example"
  "alerts (step (NavigateRecord Next) dirty_example) = alerts dirty_example"
  "step_checked (HandleRowClick 1) dirty_example = Some (step (HandleRowClick 1) dirty_example)"
  "selectedIndex (step (HandleRowClick 1) dirty_example) = Some 1"
  "pendingChanges (step (HandleRowClick 1) dirty_example) = []"
  "data (step (HandleRowClick 1) dirty_example) = data dirty_example"
  "alerts (step (HandleRowClick 1) dirty_example) = alerts dirty_example"
  "step_checked ClosePanelButton dirty_example = Some (step ClosePanelButton dirty_example)"
  "isPanelOpen (step ClosePanelButton dirty_example) = False"
  "pendingChanges (step ClosePanelButton dirty_example) = []"
  "data (step ClosePanelButton dirty_example) = data dirty_example"
  "alerts (step ClosePanelButton dirty_example) = alerts dirty_example"
  "step_checked ClosePanelBackdrop dirty_example = Some (step ClosePanelBackdrop dirty_example)"
  "isPanelOpen (step ClosePanelBackdrop dirty_example) = False"
  "pendingChanges (step ClosePanelBackdrop dirty_example) = [(''A'', Str ''9'')]"
  "data (step ClosePanelBackdrop dirty_example) = data dirty_example"
  unfolding dirty_example_state
  by (simp_all add: checked_defs eval_defs handler_defs pipeline_defs Let_def)

lemma carry_example_commit:
  "step_checked SaveChanges carry_example = Some (step SaveChanges carry_example)"
  "map_option (\<lambda>d. map content (rows d)) (data (step SaveChanges carry_example)) =
     Some [[(''A'', Str ''1''), (''B'', Str ''x''), (''C'', Str [])],
           [(''A'', Str ''2''), (''B'', Str ''z''), (''C'', Str [])]]"
  unfolding carry_example_state
  by (simp_all add: checked_defs eval_defs handler_defs pipeline_defs Let_def)
section \<open>The claims\<close>

text \<open>
  C1 (the view is the pipeline of the current inputs). The claim fails on the code: the
  dependency list of \<^verbatim>\<open>useMemo\<close> leaves out \<^verbatim>\<open>columnFilters\<close>. After a sheet with the rows
  x and y is loaded and the value x of column A is ticked, the filter state holds x, the
  pipeline of the current inputs yields the row x alone, and the rendered view still
  shows both rows.
\<close>

theorem view_stale_after_filter_change:
  "filter_example =
     step (ToggleColumnFilterValue ''A'' ''x'')
       (step (LoadData [''A''] [[(''A'', Str ''x'')], [(''A'', Str ''y'')]] ''f.csv'' None) initial_state) \<and>
   columnFilters filter_example = [(''A'', {|''x''|})] \<and>
   map content (filteredRows filter_example) = [[(''A'', Str ''x'')], [(''A'', Str ''y'')]] \<and>
   map content (pipeline filter_example) = [[(''A'', Str ''x'')]]"
  by (simp add: filter_example_facts) (simp add: filter_example_def)


text \<open>
  C2 (commit correctness). In a rendered state with dataset \<open>d\<close>, a click on view row \<open>i\<close>
  and an edit of column \<open>col\<close> to \<open>v\<close> are events whose renders succeed, and \<open>saveChanges\<close>
  then stores a dataset with the headers, file name and file id of \<open>d\<close> and as many rows, in
  which every row but the one at the canonical position \<open>p\<close> of the selected view row is the
  row of \<open>d\<close>, and the row at \<open>p\<close> maps \<open>col\<close> to \<open>v\<close> and every other column as before. The
  render that follows the commit throws exactly when the view recomputed from the new dataset
  has no row at index \<open>i\<close> any more; when it does not throw, the running application holds
  that dataset. With no record selected \<open>saveChanges\<close> changes nothing; and in any case it
  either changes nothing or writes the whole buffer over one row and empties the buffer.
\<close>

theorem commit_correctness:
  assumes "wf_state s" and "data s = Some d" and "i < length (filteredRows s)"
  shows "(\<exists>p d' s2. run_checked [HandleRowClick i, HandleFieldUpdate col v] s = Some s2 \<and>
            p < length (rows d) \<and> rows d ! p = filteredRows s ! i \<and>
            data (saveChanges s2) = Some d' \<and>
            headers d' = headers d \<and> fileName d' = fileName d \<and> fileId d' = fileId d \<and>
            length (rows d') = length (rows d) \<and>
            (\<forall>q<length (rows d). q \<noteq> p \<longrightarrow> rows d' ! q = rows d ! q) \<and>
            map_of (content (rows d' ! p)) = (map_of (content (rows d ! p)))(col \<mapsto> Str v) \<and>
            (step_checked SaveChanges s2 = None \<longleftrightarrow>
               length (filteredRows (step SaveChanges s2)) \<le> i) \<and>
            (\<forall>s3. step_checked SaveChanges s2 = Some s3 \<longrightarrow> data s3 = Some d')) \<and>
         (selectedIndex s = None \<longrightarrow> saveChanges s = s) \<and>
         (saveChanges s = s \<or>
          (\<exists>p d'. p < length (rows d) \<and> data (saveChanges s) = Some d' \<and>
             headers d' = headers d \<and> fileName d' = fileName d \<and> fileId d' = fileId d \<and>
             length (rows d') = length (rows d) \<and>
             (\<forall>q<length (rows d). q \<noteq> p \<longrightarrow> rows d' ! q = rows d ! q) \<and>
             map_of (content (rows d' ! p)) =
               map_of (content (rows d ! p)) ++ map_of (pendingChanges s) \<and>
             pendingChanges (saveChanges s) = []))"
proof (intro conjI)
  let ?s1 = "handleRowClick (int i) s"
  let ?s2 = "handleFieldUpdate col v ?s1"
  let ?s3 = "step SaveChanges ?s2"
  from view_row_position [OF assms] obtain p
    where p: "p < length (rows d)" "rows d ! p = filteredRows s ! i" by blast
  have wf1: "wf_state ?s1"
    using wf_step [OF assms(1), of "HandleRowClick i"] assms(1) by (simp add: step_HandleRowClick)
  have s1: "selectedIndex ?s1 = Some (int i)" "filteredRows ?s1 = filteredRows s"
    by (simp_all add: handleRowClick_def filteredRows_def)
  have wf2: "wf_state ?s2"
    using wf_step [OF wf1, of "HandleFieldUpdate col v"] wf1 by (simp add: step_HandleFieldUpdate)
  have e1: "step_checked (HandleRowClick i) s = Some ?s1"
    using assms(1,3) by (rule step_checked_HandleRowClick)
  have e2: "step_checked (HandleFieldUpdate col v) ?s1 = Some ?s2"
    using wf1 s1(1) assms(3) by (intro step_checked_HandleFieldUpdate) (simp_all add: s1(2))
  have run_eq: "run_checked [HandleRowClick i, HandleFieldUpdate col v] s = Some ?s2"
    by (simp add: e1 e2)
  have s2: "data ?s2 = Some d" "selectedIndex ?s2 = Some (int i)" "filteredRows ?s2 = filteredRows s"
    "pendingChanges ?s2 = [(col, Str v)]" "isPanelOpen ?s2"
    using assms(2) by (simp_all add: handleFieldUpdate_def handleRowClick_def filteredRows_def)
  from wf2 s2 assms(3) p have sv: "saveChanges ?s2 = committed ?s2 d p"
    by (simp add: saveChanges_selected)
  define d' where "d' = d\<lparr>rows := (rows d)[p := \<lparr>ident = next_ident ?s2,
        content = spread (content (rows d ! p)) [(col, Str v)]\<rparr>]\<rparr>"
  have dat: "data (saveChanges ?s2) = Some d'"
    by (simp only: sv committed_rows s2 d'_def)
  have s3: "data ?s3 \<noteq> None" "isPanelOpen ?s3" "selectedIndex ?s3 = Some (int i)"
    "pendingChanges ?s3 = []" "data ?s3 = Some d'"
    using s2(2,5) dat by (simp_all add: sv) (simp_all add: committed_def)
  from s3(1-4) have "render_throws ?s3 \<longleftrightarrow> array_get (filteredRows ?s3) (int i) = None"
    by (rule render_throws_empty_buffer)
  then have thr: "step_checked SaveChanges ?s2 = None \<longleftrightarrow> length (filteredRows ?s3) \<le> i"
    by (auto simp: step_checked_def Let_def array_get_def)
  have ok: "\<forall>s3. step_checked SaveChanges ?s2 = Some s3 \<longrightarrow> data s3 = Some d'"
    using s3(5) by (auto simp: step_checked_def Let_def split: if_splits)
  have "map_of (spread (content (rows d ! p)) [(col, Str v)]) =
      (map_of (content (rows d ! p)))(col \<mapsto> Str v)"
    by (simp add: spread_def update_conv')
  with p have fr: "headers d' = headers d \<and> fileName d' = fileName d \<and> fileId d' = fileId d \<and>
            length (rows d') = length (rows d) \<and>
            (\<forall>q<length (rows d). q \<noteq> p \<longrightarrow> rows d' ! q = rows d ! q) \<and>
            map_of (content (rows d' ! p)) = (map_of (content (rows d ! p)))(col \<mapsto> Str v)"
    by (simp add: d'_def)
  have "run_checked [HandleRowClick i, HandleFieldUpdate col v] s = Some ?s2 \<and>
            p < length (rows d) \<and> rows d ! p = filteredRows s ! i \<and>
            data (saveChanges ?s2) = Some d' \<and>
            (headers d' = headers d \<and> fileName d' = fileName d \<and> fileId d' = fileId d \<and>
            length (rows d') = length (rows d) \<and>
            (\<forall>q<length (rows d). q \<noteq> p \<longrightarrow> rows d' ! q = rows d ! q) \<and>
            map_of (content (rows d' ! p)) = (map_of (content (rows d ! p)))(col \<mapsto> Str v)) \<and>
            (step_checked SaveChanges ?s2 = None \<longleftrightarrow>
               length (filteredRows (step SaveChanges ?s2)) \<le> i) \<and>
            (\<forall>s3. step_checked SaveChanges ?s2 = Some s3 \<longrightarrow> data s3 = Some d')"
    by (intro conjI run_eq p dat fr thr ok)
  then
  show "\<exists>p d' s2. run_checked [HandleRowClick i, HandleFieldUpdate col v] s = Some s2 \<and>
            p < length (rows d) \<and> rows d ! p = filteredRows s ! i \<and>
            data (saveChanges s2) = Some d' \<and>
            headers d' = headers d \<and> fileName d' = fileName d \<and> fileId d' = fileId d \<and>
            length (rows d') = length (rows d) \<and>
            (\<forall>q<length (rows d). q \<noteq> p \<longrightarrow> rows d' ! q = rows d ! q) \<and>
            map_of (content (rows d' ! p)) = (map_of (content (rows d ! p)))(col \<mapsto> Str v) \<and>
            (step_checked SaveChanges s2 = None \<longleftrightarrow>
               length (filteredRows (step SaveChanges s2)) \<le> i) \<and>
            (\<forall>s3. step_checked SaveChanges s2 = Some s3 \<longrightarrow> data s3 = Some d')"
    by (intro exI [of _ p] exI [of _ d'] exI [of _ "?s2"]) simp
next
  show "selectedIndex s = None \<longrightarrow> saveChanges s = s"
    by (simp add: saveChanges_def)
next
  from assms(1) have dis: "distinct (map fst (pendingChanges s))"
    by (simp add: wf_state_def)
  from saveChanges_cases [of s]
  show "saveChanges s = s \<or>
          (\<exists>p d'. p < length (rows d) \<and> data (saveChanges s) = Some d' \<and>
             headers d' = headers d \<and> fileName d' = fileName d \<and> fileId d' = fileId d \<and>
             length (rows d') = length (rows d) \<and>
             (\<forall>q<length (rows d). q \<noteq> p \<longrightarrow> rows d' ! q = rows d ! q) \<and>
             map_of (content (rows d' ! p)) =
               map_of (content (rows d ! p)) ++ map_of (pendingChanges s) \<and>
             pendingChanges (saveChanges s) = [])"
  proof
    assume "saveChanges s = s"
    then show ?thesis by simp
  next
    assume "\<exists>i d t p. selectedIndex s = Some i \<and> data s = Some d \<and>
      array_get (filteredRows s) i = Some t \<and> indexOf (rows d) t = Some p \<and>
      saveChanges s = committed s d p"
    with assms(2) obtain t p where ix: "indexOf (rows d) t = Some p"
      and sv: "saveChanges s = committed s d p" by auto
    from ix have p: "p < length (rows d)" by (simp add: indexOf_Some)
    define d' where "d' = d\<lparr>rows := (rows d)[p := \<lparr>ident = next_ident s,
           content = spread (content (rows d ! p)) (pendingChanges s)\<rparr>]\<rparr>"
    have "data (saveChanges s) = Some d' \<and> pendingChanges (saveChanges s) = []"
      by (simp add: sv committed_def d'_def)
    moreover from p dis have "headers d' = headers d \<and> fileName d' = fileName d \<and>
        fileId d' = fileId d \<and> length (rows d') = length (rows d) \<and>
        (\<forall>q<length (rows d). q \<noteq> p \<longrightarrow> rows d' ! q = rows d ! q) \<and>
        map_of (content (rows d' ! p)) = map_of (content (rows d ! p)) ++ map_of (pendingChanges s)"
      by (simp add: d'_def map_of_spread_distinct)
    ultimately show ?thesis using p by blast
  qed
qed

theorem commit_correctness_witness:
  "wf_state sorted_example \<and> data sorted_example = Some sorted_example_data \<and>
   0 < length (filteredRows sorted_example) \<and>
   (\<exists>p d' s3. p < length (rows sorted_example_data) \<and>
      rows sorted_example_data ! p = filteredRows sorted_example ! 0 \<and>
      run_checked [HandleRowClick 0, HandleFieldUpdate ''B'' ''z'', SaveChanges] sorted_example = Some s3 \<and>
      data s3 = Some d' \<and>
      headers d' = headers sorted_example_data \<and> fileName d' = fileName sorted_example_data \<and>
      fileId d' = fileId sorted_example_data \<and>
      length (rows d') = length (rows sorted_example_data) \<and>
      (\<forall>q<length (rows sorted_example_data). q \<noteq> p \<longrightarrow> rows d' ! q = rows sorted_example_data ! q) \<and>
      map_of (content (rows d' ! p)) =
        (map_of (content (rows sorted_example_data ! p)))(''B'' \<mapsto> Str ''z'')) \<and>
   selectedIndex sorted_example = None \<and> saveChanges sorted_example = sorted_example"
proof -
  have len: "0 < length (filteredRows sorted_example)"
    by (simp add: sorted_example_facts)
  have sel: "selectedIndex sorted_example = None"
    by (simp add: sorted_example_def eval_defs handler_defs)
  note cc = commit_correctness [OF wf_sorted_example sorted_example_facts(1) len, of "''B''" "''z''"]
  from cc sel have no: "saveChanges sorted_example = sorted_example"
    by (elim conjE) simp
  from cc obtain p d' s2 where
    r: "run_checked [HandleRowClick 0, HandleFieldUpdate ''B'' ''z''] sorted_example = Some s2"
    and p: "p < length (rows sorted_example_data)"
      "rows sorted_example_data ! p = filteredRows sorted_example ! 0"
    and fr: "headers d' = headers sorted_example_data" "fileName d' = fileName sorted_example_data"
      "fileId d' = fileId sorted_example_data" "length (rows d') = length (rows sorted_example_data)"
      "\<forall>q<length (rows sorted_example_data). q \<noteq> p \<longrightarrow> rows d' ! q = rows sorted_example_data ! q"
      "map_of (content (rows d' ! p)) = (map_of (content (rows sorted_example_data ! p)))(''B'' \<mapsto> Str ''z'')"
    and thr: "step_checked SaveChanges s2 = None \<longleftrightarrow> length (filteredRows (step SaveChanges s2)) \<le> 0"
    and ok: "\<forall>s3. step_checked SaveChanges s2 = Some s3 \<longrightarrow> data s3 = Some d'"
    by (elim exE conjE) (rule that; assumption)
  from r have s2: "s2 = run [HandleRowClick 0, HandleFieldUpdate ''B'' ''z''] sorted_example"
    by (rule run_checked_Some)
  have "length (filteredRows (step SaveChanges s2)) = 2"
    unfolding s2 sorted_example_def
    by (simp add: eval_defs handler_defs pipeline_defs array_get_def spread_def)
  with thr obtain s3 where s3: "step_checked SaveChanges s2 = Some s3"
    by auto
  with ok have "data s3 = Some d'"
    by simp
  moreover from r s3
  have "run_checked [HandleRowClick 0, HandleFieldUpdate ''B'' ''z'', SaveChanges] sorted_example = Some s3"
    using run_checked_append [of "[HandleRowClick 0, HandleFieldUpdate ''B'' ''z'']" SaveChanges sorted_example]
    by simp
  ultimately
  have "p < length (rows sorted_example_data) \<and>
      rows sorted_example_data ! p = filteredRows sorted_example ! 0 \<and>
      run_checked [HandleRowClick 0, HandleFieldUpdate ''B'' ''z'', SaveChanges] sorted_example = Some s3 \<and>
      data s3 = Some d' \<and>
      headers d' = headers sorted_example_data \<and> fileName d' = fileName sorted_example_data \<and>
      fileId d' = fileId sorted_example_data \<and>
      length (rows d') = length (rows sorted_example_data) \<and>
      (\<forall>q<length (rows sorted_example_data). q \<noteq> p \<longrightarrow> rows d' ! q = rows sorted_example_data ! q) \<and>
      map_of (content (rows d' ! p)) =
        (map_of (content (rows sorted_example_data ! p)))(''B'' \<mapsto> Str ''z'')"
    by (intro conjI p fr)
  then have "\<exists>p d' s3. p < length (rows sorted_example_data) \<and>
      rows sorted_example_data ! p = filteredRows sorted_example ! 0 \<and>
      run_checked [HandleRowClick 0, HandleFieldUpdate ''B'' ''z'', SaveChanges] sorted_example = Some s3 \<and>
      data s3 = Some d' \<and>
      headers d' = headers sorted_example_data \<and> fileName d' = fileName sorted_example_data \<and>
      fileId d' = fileId sorted_example_data \<and>
      length (rows d') = length (rows sorted_example_data) \<and>
      (\<forall>q<length (rows sorted_example_data). q \<noteq> p \<longrightarrow> rows d' ! q = rows sorted_example_data ! q) \<and>
      map_of (content (rows d' ! p)) =
        (map_of (content (rows sorted_example_data ! p)))(''B'' \<mapsto> Str ''z'')"
    by (intro exI [of _ p] exI [of _ d'] exI [of _ s3])
  with wf_sorted_example sorted_example_facts(1) len sel no show ?thesis
    by (intro conjI)
qed

text \<open>
  C3 (commit resolves the row by identity). \<^verbatim>\<open>data.rows.indexOf(targetRow)\<close> compares
  objects, not their content: when the selected view row is the object at canonical
  position \<open>p\<close> and another position \<open>q\<close> holds a row of equal content, \<open>saveChanges\<close> writes
  the buffer over the row at \<open>p\<close> and leaves the row at \<open>q\<close> as it is; this is the dataset of
  the running application whenever the render after the commit does not throw.
\<close>

theorem commit_resolves_by_identity:
  assumes "wf_state s" and "data s = Some d" and "selectedIndex s = Some (int i)"
    and "i < length (filteredRows s)"
    and "p < length (rows d)" and "filteredRows s ! i = rows d ! p"
    and "q < length (rows d)" and "q \<noteq> p" and "content (rows d ! q) = content (rows d ! p)"
  shows "\<exists>d'. data (saveChanges s) = Some d' \<and>
           length (rows d') = length (rows d) \<and>
           content (rows d' ! p) = spread (content (rows d ! p)) (pendingChanges s) \<and>
           rows d' ! q = rows d ! q \<and>
           (\<forall>s'. step_checked SaveChanges s = Some s' \<longrightarrow> data s' = Some d')"
proof -
  define d' where "d' = d\<lparr>rows := (rows d)[p := \<lparr>ident = next_ident s,
         content = spread (content (rows d ! p)) (pendingChanges s)\<rparr>]\<rparr>"
  from assms(1-6) have "saveChanges s = committed s d p"
    by (rule saveChanges_selected)
  then have dat: "data (saveChanges s) = Some d'"
    by (simp add: committed_rows d'_def)
  then have "\<forall>s'. step_checked SaveChanges s = Some s' \<longrightarrow> data s' = Some d'"
    by (auto simp: step_checked_def Let_def split: if_splits)
  moreover from assms(5,7,8) have "length (rows d') = length (rows d)"
    "content (rows d' ! p) = spread (content (rows d ! p)) (pendingChanges s)"
    "rows d' ! q = rows d ! q"
    by (simp_all add: d'_def)
  ultimately show ?thesis
    using dat by (intro exI [of _ d']) simp
qed

theorem commit_resolves_by_identity_witness:
  "wf_state duplicate_example \<and> data duplicate_example = Some duplicate_example_data \<and>
   selectedIndex duplicate_example = Some (int 1) \<and>
   1 < length (filteredRows duplicate_example) \<and>
   1 < length (rows duplicate_example_data) \<and>
   filteredRows duplicate_example ! 1 = rows duplicate_example_data ! 1 \<and>
   0 < length (rows duplicate_example_data) \<and> (0::nat) \<noteq> 1 \<and>
   content (rows duplicate_example_data ! 0) = content (rows duplicate_example_data ! 1) \<and>
   (\<exists>d' s'. data (saveChanges duplicate_example) = Some d' \<and>
      step_checked SaveChanges duplicate_example = Some s' \<and> data s' = Some d' \<and>
      length (rows d') = length (rows duplicate_example_data) \<and>
      content (rows d' ! 1) = [(''A'', Str ''9'')] \<and>
      rows d' ! 0 = \<lparr>ident = 0, content = [(''A'', Str ''1'')]\<rparr>)"
proof -
  have h: "selectedIndex duplicate_example = Some (int 1)"
    "1 < length (filteredRows duplicate_example)"
    "1 < length (rows duplicate_example_data)"
    "filteredRows duplicate_example ! 1 = rows duplicate_example_data ! 1"
    "0 < length (rows duplicate_example_data)" "(0::nat) \<noteq> 1"
    "content (rows duplicate_example_data ! 0) = content (rows duplicate_example_data ! 1)"
    by (simp_all add: duplicate_example_facts) (simp_all add: duplicate_example_data_def)
  from commit_resolves_by_identity [OF wf_duplicate_example duplicate_example_facts(1) h]
  obtain d' where d: "data (saveChanges duplicate_example) = Some d'"
    "length (rows d') = length (rows duplicate_example_data)"
    "content (rows d' ! 1) =
       spread (content (rows duplicate_example_data ! 1)) (pendingChanges duplicate_example)"
    "rows d' ! 0 = rows duplicate_example_data ! 0"
    and ok: "\<forall>s'. step_checked SaveChanges duplicate_example = Some s' \<longrightarrow> data s' = Some d'"
    by (elim exE conjE) (rule that; assumption)
  have "step_checked SaveChanges duplicate_example \<noteq> None"
    unfolding duplicate_example_def
    by (simp add: checked_defs eval_defs handler_defs pipeline_defs)
  then obtain s' where s': "step_checked SaveChanges duplicate_example = Some s'"
    by auto
  with ok have ds: "data s' = Some d'"
    by simp
  have sp: "spread (content (rows duplicate_example_data ! 1)) (pendingChanges duplicate_example) =
      [(''A'', Str ''9'')]"
    by (simp add: duplicate_example_facts(4)) (simp add: duplicate_example_data_def spread_def)
  have r0: "rows duplicate_example_data ! 0 = \<lparr>ident = 0, content = [(''A'', Str ''1'')]\<rparr>"
    by (simp add: duplicate_example_data_def)
  from d s' ds sp r0
  have "\<exists>d' s'. data (saveChanges duplicate_example) = Some d' \<and>
      step_checked SaveChanges duplicate_example = Some s' \<and> data s' = Some d' \<and>
      length (rows d') = length (rows duplicate_example_data) \<and>
      content (rows d' ! 1) = [(''A'', Str ''9'')] \<and>
      rows d' ! 0 = \<lparr>ident = 0, content = [(''A'', Str ''1'')]\<rparr>"
    by (intro exI [of _ d'] exI [of _ s']) simp
  with wf_duplicate_example duplicate_example_facts(1) h show ?thesis
    by (intro conjI)
qed

text \<open>
  C4 (sort stability) fails on a column that mixes text and numbers. The comparator finds
  the text 9 and the number 9 equal (it compares their strings), puts 10 before the text 9
  (as strings) and the number 9 before 10 (as numbers). On the rows 9 (text), 10, 9 sorted
  in ascending order the engine sees a strictly descending run and reverses it: the view is
  the input backwards, and the two rows that compare equal have changed places. In
  descending order the same happens on the rows 9, 10, 9 (text).
\<close>

theorem sort_unstable_on_mixed_column:
  "map_option rows (data mixed_example) = Some mixed_rows \<and>
   sortConfig mixed_example = \<lparr>key = Some ''A'', direction = Asc\<rparr> \<and>
   compare_rows ''A'' Asc (mixed_rows ! 0) (mixed_rows ! 2) = 0 \<and>
   compare_rows ''A'' Asc (mixed_rows ! 2) (mixed_rows ! 0) = 0 \<and>
   compare_rows ''A'' Asc (mixed_rows ! 1) (mixed_rows ! 0) < 0 \<and>
   compare_rows ''A'' Asc (mixed_rows ! 2) (mixed_rows ! 1) < 0 \<and>
   filteredRows mixed_example = [mixed_rows ! 2, mixed_rows ! 1, mixed_rows ! 0] \<and>
   pipeline mixed_example = [mixed_rows ! 2, mixed_rows ! 1, mixed_rows ! 0] \<and>
   map_option rows (data mixed_example_desc) = Some mixed_rows_desc \<and>
   sortConfig mixed_example_desc = \<lparr>key = Some ''A'', direction = Desc\<rparr> \<and>
   compare_rows ''A'' Desc (mixed_rows_desc ! 0) (mixed_rows_desc ! 2) = 0 \<and>
   compare_rows ''A'' Desc (mixed_rows_desc ! 2) (mixed_rows_desc ! 0) = 0 \<and>
   filteredRows mixed_example_desc = [mixed_rows_desc ! 2, mixed_rows_desc ! 1, mixed_rows_desc ! 0] \<and>
   pipeline mixed_example_desc = [mixed_rows_desc ! 2, mixed_rows_desc ! 1, mixed_rows_desc ! 0]"
  by (simp add: mixed_example_def mixed_example_desc_def mixed_rows_def mixed_rows_desc_def
      eval_defs handler_defs pipeline_defs int_string_def nat_digits.simps digit_char_def)

text \<open>
  C5 (filter monotonicity), as the claim states it, fails: adding a value to an accepted
  set that already filters lets more rows pass, and removing one of several values lets
  fewer pass. With x accepted one row is in the view; adding y gives two; removing y again
  gives one.
\<close>

theorem filter_monotonicity_counterexample:
  "accepted (columnFilters filter_example) ''A'' = {|''x''|} \<and>
   length (pipeline filter_example) = 1 \<and>
   accepted (columnFilters (toggleColumnFilterValue ''A'' ''y'' filter_example)) ''A'' = {|''y'', ''x''|} \<and>
   length (pipeline (toggleColumnFilterValue ''A'' ''y'' filter_example)) = 2 \<and>
   accepted (columnFilters (toggleColumnFilterValue ''A'' ''y''
      (toggleColumnFilterValue ''A'' ''y'' filter_example))) ''A'' = {|''x''|} \<and>
   length (pipeline (toggleColumnFilterValue ''A'' ''y''
      (toggleColumnFilterValue ''A'' ''y'' filter_example))) = 1"
proof -
  have "length (map content (pipeline filter_example)) = 1"
    "length (map content (pipeline (toggleColumnFilterValue ''A'' ''y'' filter_example))) = 2"
    "length (map content (pipeline (toggleColumnFilterValue ''A'' ''y''
      (toggleColumnFilterValue ''A'' ''y'' filter_example)))) = 1"
    by (simp_all only: filter_example_facts) simp_all
  then have len: "length (pipeline filter_example) = 1"
    "length (pipeline (toggleColumnFilterValue ''A'' ''y'' filter_example)) = 2"
    "length (pipeline (toggleColumnFilterValue ''A'' ''y''
      (toggleColumnFilterValue ''A'' ''y'' filter_example))) = 1"
    by (simp_all only: length_map)
  have acc: "accepted (columnFilters filter_example) ''A'' = {|''x''|}"
    "accepted (columnFilters (toggleColumnFilterValue ''A'' ''y'' filter_example)) ''A'' = {|''y'', ''x''|}"
    by (simp_all add: filter_example_facts accepted_def)
  have "columnFilters (toggleColumnFilterValue ''A'' ''y''
      (toggleColumnFilterValue ''A'' ''y'' filter_example)) = [(''A'', {|''x''|})]"
    by (simp add: toggle_filters [of "''A''" "''y''" "toggleColumnFilterValue ''A'' ''y'' filter_example"]
        filter_example_facts(5) accepted_def)
  then have "accepted (columnFilters (toggleColumnFilterValue ''A'' ''y''
      (toggleColumnFilterValue ''A'' ''y'' filter_example))) ''A'' = {|''x''|}"
    by (simp add: accepted_def)
  with len acc show ?thesis by (simp only: simp_thms)
qed

text \<open>
  C5, amended. The row count of the pipeline changes with a toggle of value \<open>v\<close> in column
  \<open>c\<close> as follows. Adding \<open>v\<close> to a non-empty accepted set never decreases it; adding the
  first value to an unfiltered column never increases it; removing \<open>v\<close> from a set that stays
  non-empty never increases it; removing the last value, which drops the column's entry,
  never decreases it. (The rendered view follows the pipeline at the next change of the
  dataset, the query or the sort, see C1.)
\<close>

theorem filter_monotonicity:
  assumes "distinct (map fst (columnFilters s))"
  shows
    "(v |\<notin>| accepted (columnFilters s) c \<and> accepted (columnFilters s) c \<noteq> {||} \<longrightarrow>
        length (pipeline s) \<le> length (pipeline (toggleColumnFilterValue c v s))) \<and>
     (v |\<notin>| accepted (columnFilters s) c \<and> accepted (columnFilters s) c = {||} \<longrightarrow>
        length (pipeline (toggleColumnFilterValue c v s)) \<le> length (pipeline s)) \<and>
     (v |\<in>| accepted (columnFilters s) c \<and> accepted (columnFilters s) c \<noteq> {|v|} \<longrightarrow>
        length (pipeline (toggleColumnFilterValue c v s)) \<le> length (pipeline s)) \<and>
     (v |\<in>| accepted (columnFilters s) c \<and> accepted (columnFilters s) c = {|v|} \<longrightarrow>
        length (pipeline s) \<le> length (pipeline (toggleColumnFilterValue c v s)))"
proof (cases "data s")
  case None
  then show ?thesis by (simp add: pipeline_no_data)
next
  case (Some d)
  let ?S = "accepted (columnFilters s) c"
  let ?t = "toggleColumnFilterValue c v s"
  let ?rs = "search_step (searchQuery s) (rows d)"
  let ?before = "\<lambda>r. list_all (entry_ok r) (columnFilters s)"
  let ?after = "\<lambda>r. list_all (entry_ok r) (columnFilters ?t)"
  have before: "?before r = (entry_ok r (c, ?S) \<and>
      list_all (\<lambda>e. fst e = c \<or> entry_ok r e) (columnFilters s))" for r
    using assms by (rule list_all_entry_split)
  note after = passes_after_toggle [OF assms, of _ c v]
  have len: "length (pipeline s) = length (filter ?before ?rs)"
    "length (pipeline ?t) = length (filter ?after ?rs)"
    using Some by (simp_all add: length_pipeline)
  have a: "length (filter ?before ?rs) \<le> length (filter ?after ?rs)"
    if "v |\<notin>| ?S" "?S \<noteq> {||}"
  proof (rule length_filter_mono)
    fix r assume "?before r"
    with that show "?after r"
      by (simp add: before after entry_ok_nonempty)
  qed
  have b: "length (filter ?after ?rs) \<le> length (filter ?before ?rs)"
    if "v |\<notin>| ?S" "?S = {||}"
  proof (rule length_filter_mono)
    fix r assume "?after r"
    with that show "?before r"
      by (simp add: before after)
  qed
  have c: "length (filter ?after ?rs) \<le> length (filter ?before ?rs)"
    if "v |\<in>| ?S" "?S \<noteq> {|v|}"
  proof (rule length_filter_mono)
    fix r assume r: "?after r"
    from that have ne: "?S |-| {|v|} \<noteq> {||}" by auto
    from that(1) have ne': "?S \<noteq> {||}" by auto
    from r that(1) have "String_or_empty (get_field r c) |\<in>| ?S |-| {|v|}"
      and "list_all (\<lambda>e. fst e = c \<or> entry_ok r e) (columnFilters s)"
      by (simp_all add: after entry_ok_nonempty [OF ne])
    then show "?before r"
      by (simp add: before entry_ok_nonempty [OF ne'])
  qed
  have d: "length (filter ?before ?rs) \<le> length (filter ?after ?rs)"
    if "v |\<in>| ?S" "?S = {|v|}"
  proof (rule length_filter_mono)
    fix r assume "?before r"
    with that show "?after r"
      by (simp add: before after)
  qed
  from a b c d show ?thesis by (simp only: len) blast
qed

theorem filter_monotonicity_witness:
  "distinct (map fst (columnFilters filter_example)) \<and>
   distinct (map fst (columnFilters unfiltered_example)) \<and>
   distinct (map fst (columnFilters (toggleColumnFilterValue ''A'' ''y'' filter_example))) \<and>
   (''y'' |\<notin>| accepted (columnFilters filter_example) ''A'' \<and>
    accepted (columnFilters filter_example) ''A'' \<noteq> {||}) \<and>
   length (pipeline filter_example)
     \<le> length (pipeline (toggleColumnFilterValue ''A'' ''y'' filter_example)) \<and>
   (''x'' |\<notin>| accepted (columnFilters unfiltered_example) ''A'' \<and>
    accepted (columnFilters unfiltered_example) ''A'' = {||}) \<and>
   length (pipeline (toggleColumnFilterValue ''A'' ''x'' unfiltered_example))
     \<le> length (pipeline unfiltered_example) \<and>
   (''y'' |\<in>| accepted (columnFilters (toggleColumnFilterValue ''A'' ''y'' filter_example)) ''A'' \<and>
    accepted (columnFilters (toggleColumnFilterValue ''A'' ''y'' filter_example)) ''A'' \<noteq> {|''y''|}) \<and>
   length (pipeline (toggleColumnFilterValue ''A'' ''y''
       (toggleColumnFilterValue ''A'' ''y'' filter_example)))
     \<le> length (pipeline (toggleColumnFilterValue ''A'' ''y'' filter_example)) \<and>
   (''x'' |\<in>| accepted (columnFilters filter_example) ''A'' \<and>
    accepted (columnFilters filter_example) ''A'' = {|''x''|}) \<and>
   length (pipeline filter_example)
     \<le> length (pipeline (toggleColumnFilterValue ''A'' ''x'' filter_example))"
proof -
  have d: "distinct (map fst (columnFilters filter_example))"
    "distinct (map fst (columnFilters unfiltered_example))"
    "distinct (map fst (columnFilters (toggleColumnFilterValue ''A'' ''y'' filter_example)))"
    by (simp_all add: filter_example_facts unfiltered_example_facts)
  have a: "accepted (columnFilters filter_example) ''A'' = {|''x''|}"
    "accepted (columnFilters unfiltered_example) ''A'' = {||}"
    "accepted (columnFilters (toggleColumnFilterValue ''A'' ''y'' filter_example)) ''A'' = {|''y'', ''x''|}"
    by (simp_all add: filter_example_facts unfiltered_example_facts accepted_def)
  have ne: "{|''y'', ''x''|} \<noteq> {|''y''|}" by auto
  have h1: "''y'' |\<notin>| accepted (columnFilters filter_example) ''A'' \<and>
      accepted (columnFilters filter_example) ''A'' \<noteq> {||}"
    by (simp add: a)
  have h2: "''x'' |\<notin>| accepted (columnFilters unfiltered_example) ''A'' \<and>
      accepted (columnFilters unfiltered_example) ''A'' = {||}"
    by (simp add: a)
  have h3: "''y'' |\<in>| accepted (columnFilters (toggleColumnFilterValue ''A'' ''y'' filter_example)) ''A'' \<and>
      accepted (columnFilters (toggleColumnFilterValue ''A'' ''y'' filter_example)) ''A'' \<noteq> {|''y''|}"
    using ne by (simp add: a)
  have h4: "''x'' |\<in>| accepted (columnFilters filter_example) ''A'' \<and>
      accepted (columnFilters filter_example) ''A'' = {|''x''|}"
    by (simp add: a)
  have c1: "length (pipeline filter_example)
      \<le> length (pipeline (toggleColumnFilterValue ''A'' ''y'' filter_example))"
    using filter_monotonicity [OF d(1), of "''y''" "''A''"] h1 by blast
  have c2: "length (pipeline (toggleColumnFilterValue ''A'' ''x'' unfiltered_example))
      \<le> length (pipeline unfiltered_example)"
    using filter_monotonicity [OF d(2), of "''x''" "''A''"] h2 by blast
  have c3: "length (pipeline (toggleColumnFilterValue ''A'' ''y''
       (toggleColumnFilterValue ''A'' ''y'' filter_example)))
      \<le> length (pipeline (toggleColumnFilterValue ''A'' ''y'' filter_example))"
    using filter_monotonicity [OF d(3), of "''y''" "''A''"] h3 by blast
  have c4: "length (pipeline filter_example)
      \<le> length (pipeline (toggleColumnFilterValue ''A'' ''x'' filter_example))"
    using filter_monotonicity [OF d(1), of "''x''" "''A''"] h4 by blast
  from d h1 h2 h3 h4 c1 c2 c3 c4 show ?thesis
    by blast
qed

text \<open>
  C6 (unsaved edits are resolved before the selection moves) fails. With an edit staged on
  the first record: \<^verbatim>\<open>navigateRecord('next')\<close>, a click on another row and the close button of
  the panel each empty the buffer at once, with no dialog and no change of the dataset; a
  click on the backdrop closes the panel and leaves the buffer staged, unresolved. And the
  buffer can reach another row: the edit of field B staged on the row with A = 1 stays in
  the buffer when a column is added from the panel, the view is recomputed under the
  filter ticked before, index 0 is now the row with A = 2, and Save writes the edit there.
\<close>

theorem unsaved_edits_dropped_or_carried:
  "pendingChanges dirty_example = [(''A'', Str ''9'')] \<and>
   selectedIndex dirty_example = Some 0 \<and> isPanelOpen dirty_example \<and>
   step_checked (NavigateRecord Next) dirty_example = Some (step (NavigateRecord Next) dirty_example) \<and>
   selectedIndex (step (NavigateRecord Next) dirty_example) = Some 1 \<and>
   pendingChanges (step (NavigateRecord Next) dirty_example) = [] \<and>
   data (step (NavigateRecord Next) dirty_example) = data dirty_example \<and>
   alerts (step (NavigateRecord Next) dirty_example) = alerts dirty_example \<and>
   step_checked (HandleRowClick 1) dirty_example = Some (step (HandleRowClick 1) dirty_example) \<and>
   selectedIndex (step (HandleRowClick 1) dirty_example) = Some 1 \<and>
   pendingChanges (step (HandleRowClick 1) dirty_example) = [] \<and>
   data (step (HandleRowClick 1) dirty_example) = data dirty_example \<and>
   alerts (step (HandleRowClick 1) dirty_example) = alerts dirty_example \<and>
   step_checked ClosePanelButton dirty_example = Some (step ClosePanelButton dirty_example) \<and>
   isPanelOpen (step ClosePanelButton dirty_example) = False \<and>
   pendingChanges (step ClosePanelButton dirty_example) = [] \<and>
   data (step ClosePanelButton dirty_example) = data dirty_example \<and>
   alerts (step ClosePanelButton dirty_example) = alerts dirty_example \<and>
   step_checked ClosePanelBackdrop dirty_example = Some (step ClosePanelBackdrop dirty_example) \<and>
   isPanelOpen (step ClosePanelBackdrop dirty_example) = False \<and>
   pendingChanges (step ClosePanelBackdrop dirty_example) = [(''A'', Str ''9'')] \<and>
   data (step ClosePanelBackdrop dirty_example) = data dirty_example \<and>
   run_checked
     [LoadData [''A'', ''B'']
        [[(''A'', Str ''1''), (''B'', Str ''x'')], [(''A'', Str ''2''), (''B'', Str ''y'')]]
        ''f.csv'' None,
      ToggleColumnFilterValue ''A'' ''2'', HandleRowClick 0, HandleFieldUpdate ''B'' ''z'']
     initial_state = Some staged_example \<and>
   selectedIndex staged_example = Some 0 \<and>
   pendingChanges staged_example = [(''B'', Str ''z'')] \<and>
   map content (filteredRows staged_example) =
     [[(''A'', Str ''1''), (''B'', Str ''x'')], [(''A'', Str ''2''), (''B'', Str ''y'')]] \<and>
   run_checked [SetIsAddingColumn True, SetNewColumnName ''C'', AddColumn ''C''] staged_example =
     Some carry_example \<and>
   selectedIndex carry_example = Some 0 \<and>
   pendingChanges carry_example = [(''B'', Str ''z'')] \<and>
   map content (filteredRows carry_example) =
     [[(''A'', Str ''2''), (''B'', Str ''y''), (''C'', Str [])]] \<and>
   step_checked SaveChanges carry_example = Some (step SaveChanges carry_example) \<and>
   map_option (\<lambda>d. map content (rows d)) (data (step SaveChanges carry_example)) =
     Some [[(''A'', Str ''1''), (''B'', Str ''x''), (''C'', Str [])],
           [(''A'', Str ''2''), (''B'', Str ''z''), (''C'', Str [])]]"
proof -
  have "pendingChanges dirty_example = [(''A'', Str ''9'')]" "selectedIndex dirty_example = Some 0"
    "isPanelOpen dirty_example"
    by (simp_all add: dirty_example_state)
  moreover
  have "selectedIndex staged_example = Some 0" "pendingChanges staged_example = [(''B'', Str ''z'')]"
    "map content (filteredRows staged_example) =
       [[(''A'', Str ''1''), (''B'', Str ''x'')], [(''A'', Str ''2''), (''B'', Str ''y'')]]"
    by (simp_all add: staged_example_state filteredRows_def)
  moreover
  have "selectedIndex carry_example = Some 0" "pendingChanges carry_example = [(''B'', Str ''z'')]"
    "map content (filteredRows carry_example) =
       [[(''A'', Str ''2''), (''B'', Str ''y''), (''C'', Str [])]]"
    by (simp_all add: carry_example_state filteredRows_def)
  ultimately show ?thesis
    by (intro conjI dirty_example_moves staged_example_checked carry_example_checked
        carry_example_commit)
qed

text \<open>
  C7 (column reorder). The no-op part of the claim fails on the code: \<^verbatim>\<open>moveColumn\<close> does
  not test the two results of \<^verbatim>\<open>indexOf\<close>, and \<^verbatim>\<open>splice\<close> reads \<^verbatim>\<open>-1\<close> as the last
  position. Dropping a name that is not a column on column A removes the last column C
  from the order and inserts the foreign name; moving A onto a name that is not a column
  puts A before the last column.
\<close>

theorem moveColumn_absent_name:
  "columnOrder three_columns = [''A'', ''B'', ''C''] \<and>
   columnOrder (step (MoveColumn ''Z'' ''A'') three_columns) = [''Z'', ''A'', ''B''] \<and>
   columnOrder (step (MoveColumn ''A'' ''Z'') three_columns) = [''B'', ''A'', ''C'']"
proof -
  have "columnOrder three_columns = [''A'', ''B'', ''C'']"
    by (simp add: three_columns_def eval_defs handler_defs pipeline_defs)
  then show ?thesis
    by (simp add: moveColumn_def splice_insert_def splice_remove1_def splice_start_def)
qed

text \<open>
  C8 (adding a column), as the claim states it, fails: the name is trimmed first. The name
  " A" does not collide with the column "A", yet the error is reported; the name " " does
  not collide either, yet nothing is appended.
\<close>

theorem addColumn_untrimmed_counterexample:
  "data unfiltered_example = Some unfiltered_data \<and>
   headers unfiltered_data = [''A''] \<and>
   '' A'' \<notin> set (headers unfiltered_data) \<and>
   alerts (step (AddColumn '' A'') unfiltered_example) =
     alerts unfiltered_example @ [''Column already exists''] \<and>
   data (step (AddColumn '' A'') unfiltered_example) = data unfiltered_example \<and>
   '' '' \<notin> set (headers unfiltered_data) \<and>
   alerts (step (AddColumn '' '') unfiltered_example) = alerts unfiltered_example \<and>
   data (step (AddColumn '' '') unfiltered_example) = data unfiltered_example"
proof -
  have h: "headers unfiltered_data = [''A'']" by (simp add: unfiltered_data_def)
  have 1: "addColumn '' A'' unfiltered_example =
      unfiltered_example\<lparr>alerts := alerts unfiltered_example @ [''Column already exists'']\<rparr>"
    by (rule addColumn_duplicate [OF unfiltered_example_data(1)]) (simp_all add: trim_examples h)
  have 2: "addColumn '' '' unfiltered_example = unfiltered_example"
    by (rule addColumn_blank) (simp add: trim_examples)
  show ?thesis
    by (simp add: 1 2 h unfiltered_example_data(1))
qed

text \<open>
  C8, amended. With a dataset loaded, \<^verbatim>\<open>addColumn\<close> reports an error exactly when the name
  with the white space characters stripped from both ends (\<open>trim\<close>) is not empty and is one
  of the headers, and then changes nothing but the log of alerts. When the trimmed name is
  empty it changes nothing at all. Otherwise it appends the trimmed name to the headers,
  maps it to the empty string in every row and leaves the other fields of the rows as they
  were, makes it visible and appends it to the display order.
\<close>

theorem addColumn_duplicate_or_append:
  assumes "data s = Some d"
  shows "(alerts (addColumn name s) \<noteq> alerts s \<longleftrightarrow>
            trim name \<noteq> [] \<and> trim name \<in> set (headers d)) \<and>
     (trim name \<noteq> [] \<and> trim name \<in> set (headers d) \<longrightarrow>
        addColumn name s = s\<lparr>alerts := alerts s @ [''Column already exists'']\<rparr>) \<and>
     (trim name = [] \<longrightarrow> addColumn name s = s) \<and>
     (trim name \<noteq> [] \<and> trim name \<notin> set (headers d) \<longrightarrow>
        (\<exists>d'. data (addColumn name s) = Some d' \<and>
           headers d' = headers d @ [trim name] \<and>
           fileName d' = fileName d \<and> fileId d' = fileId d \<and>
           map (\<lambda>r. map_of (content r)) (rows d') =
             map (\<lambda>r. (map_of (content r))(trim name \<mapsto> Str [])) (rows d)) \<and>
        visibleColumns (addColumn name s) = finsert (trim name) (visibleColumns s) \<and>
        columnOrder (addColumn name s) = columnOrder s @ [trim name])"
proof -
  have blank: "addColumn name s = s" if "trim name = []"
    using that by (rule addColumn_blank)
  have dup: "addColumn name s = s\<lparr>alerts := alerts s @ [''Column already exists'']\<rparr>"
    if "trim name \<noteq> []" "trim name \<in> set (headers d)"
    using assms that by (rule addColumn_duplicate)
  note new = addColumn_new [OF assms, of name]
  have a: "alerts (addColumn name s) \<noteq> alerts s \<longleftrightarrow>
      trim name \<noteq> [] \<and> trim name \<in> set (headers d)"
  proof (cases "trim name = []")
    case True
    then show ?thesis by (simp add: blank)
  next
    case ne: False
    show ?thesis
    proof (cases "trim name \<in> set (headers d)")
      case True
      with ne show ?thesis by (simp add: dup)
    next
      case False
      with ne show ?thesis by (simp add: new)
    qed
  qed
  have n: "(\<exists>d'. data (addColumn name s) = Some d' \<and>
           headers d' = headers d @ [trim name] \<and>
           fileName d' = fileName d \<and> fileId d' = fileId d \<and>
           map (\<lambda>r. map_of (content r)) (rows d') =
             map (\<lambda>r. (map_of (content r))(trim name \<mapsto> Str [])) (rows d)) \<and>
        visibleColumns (addColumn name s) = finsert (trim name) (visibleColumns s) \<and>
        columnOrder (addColumn name s) = columnOrder s @ [trim name]"
    if "trim name \<noteq> []" "trim name \<notin> set (headers d)"
    using that by (simp add: new new_rows_maps)
  from a blank dup n show ?thesis by blast
qed

theorem addColumn_duplicate_or_append_witness:
  "data unfiltered_example = Some unfiltered_data \<and>
   alerts (addColumn '' A'' unfiltered_example) \<noteq> alerts unfiltered_example \<and>
   (trim '' A'' \<noteq> [] \<and> trim '' A'' \<in> set (headers unfiltered_data)) \<and>
   addColumn '' A'' unfiltered_example =
     unfiltered_example\<lparr>alerts := alerts unfiltered_example @ [''Column already exists'']\<rparr> \<and>
   (trim ([CHR 0xC2, CHR 0xA0] @ ''A'') \<noteq> [] \<and>
    trim ([CHR 0xC2, CHR 0xA0] @ ''A'') \<in> set (headers unfiltered_data)) \<and>
   addColumn ([CHR 0xC2, CHR 0xA0] @ ''A'') unfiltered_example =
     unfiltered_example\<lparr>alerts := alerts unfiltered_example @ [''Column already exists'']\<rparr> \<and>
   trim [] = [] \<and> addColumn [] unfiltered_example = unfiltered_example \<and>
   (trim ''B'' \<noteq> [] \<and> trim ''B'' \<notin> set (headers unfiltered_data)) \<and>
   alerts (addColumn ''B'' unfiltered_example) = alerts unfiltered_example \<and>
   (\<exists>d'. data (addColumn ''B'' unfiltered_example) = Some d' \<and>
      headers d' = [''A'', ''B''] \<and>
      fileName d' = fileName unfiltered_data \<and> fileId d' = fileId unfiltered_data \<and>
      map (\<lambda>r. map_of (content r)) (rows d') =
        map (\<lambda>r. (map_of (content r))(''B'' \<mapsto> Str [])) (rows unfiltered_data)) \<and>
   visibleColumns (addColumn ''B'' unfiltered_example) = {|''B'', ''A''|} \<and>
   columnOrder (addColumn ''B'' unfiltered_example) = [''A'', ''B'']"
proof -
  have h: "headers unfiltered_data = [''A'']" by (simp add: unfiltered_data_def)
  have t: "trim '' A'' \<noteq> [] \<and> trim '' A'' \<in> set (headers unfiltered_data)"
    "trim [] = []"
    "trim ''B'' \<noteq> [] \<and> trim ''B'' \<notin> set (headers unfiltered_data)"
    by (simp_all add: trim_examples h)
  note w = addColumn_duplicate_or_append [OF unfiltered_example_data(1)]
  from w [of "'' A''"] t(1)
  have 1: "alerts (addColumn '' A'' unfiltered_example) \<noteq> alerts unfiltered_example"
    "addColumn '' A'' unfiltered_example =
       unfiltered_example\<lparr>alerts := alerts unfiltered_example @ [''Column already exists'']\<rparr>"
    by blast+
  have n: "trim ([CHR 0xC2, CHR 0xA0] @ ''A'') \<noteq> [] \<and>
      trim ([CHR 0xC2, CHR 0xA0] @ ''A'') \<in> set (headers unfiltered_data)"
    by (simp only: trim_examples h) simp
  with w [of "[CHR 0xC2, CHR 0xA0] @ ''A''"]
  have 5: "addColumn ([CHR 0xC2, CHR 0xA0] @ ''A'') unfiltered_example =
       unfiltered_example\<lparr>alerts := alerts unfiltered_example @ [''Column already exists'']\<rparr>"
    by blast
  from w [of "[]"] t(2)
  have 2: "addColumn [] unfiltered_example = unfiltered_example" by blast
  from w [of "''B''"] t(3)
  have 3: "alerts (addColumn ''B'' unfiltered_example) = alerts unfiltered_example"
    "\<exists>d'. data (addColumn ''B'' unfiltered_example) = Some d' \<and>
      headers d' = headers unfiltered_data @ [trim ''B''] \<and>
      fileName d' = fileName unfiltered_data \<and> fileId d' = fileId unfiltered_data \<and>
      map (\<lambda>r. map_of (content r)) (rows d') =
        map (\<lambda>r. (map_of (content r))(trim ''B'' \<mapsto> Str [])) (rows unfiltered_data)"
    "visibleColumns (addColumn ''B'' unfiltered_example) =
       finsert (trim ''B'') (visibleColumns unfiltered_example)"
    "columnOrder (addColumn ''B'' unfiltered_example) = columnOrder unfiltered_example @ [trim ''B'']"
    by blast+
  from 3(2-4) have 4:
    "\<exists>d'. data (addColumn ''B'' unfiltered_example) = Some d' \<and>
      headers d' = [''A'', ''B''] \<and>
      fileName d' = fileName unfiltered_data \<and> fileId d' = fileId unfiltered_data \<and>
      map (\<lambda>r. map_of (content r)) (rows d') =
        map (\<lambda>r. (map_of (content r))(''B'' \<mapsto> Str [])) (rows unfiltered_data)"
    "visibleColumns (addColumn ''B'' unfiltered_example) = {|''B'', ''A''|}"
    "columnOrder (addColumn ''B'' unfiltered_example) = [''A'', ''B'']"
    by (simp_all add: trim_examples h unfiltered_example_data)
  from unfiltered_example_data(1) t 1 2 3(1) 4 n 5 show ?thesis by blast
qed


text \<open>
  C9 (visibility floor). Starting from a state with at least one visible column, no
  sequence of \<^verbatim>\<open>toggleColumn\<close> calls empties the set of visible columns. When exactly one
  column is visible and it is the target, the call changes nothing, and toggling that
  column any number of times leaves it the one visible column.
\<close>

theorem visibility_floor:
  assumes "visibleColumns s \<noteq> {||}"
  shows "visibleColumns (run (map ToggleColumn hs) s) \<noteq> {||} \<and>
         (visibleColumns s = {|h|} \<longrightarrow>
            toggleColumn h s = s \<and>
            visibleColumns (run (replicate n (ToggleColumn h)) s) = {|h|})"
proof -
  have a: "visibleColumns (run (map ToggleColumn hs) s) \<noteq> {||}" using assms
  proof (induction hs arbitrary: s)
    case Nil
    then show ?case by simp
  next
    case (Cons x xs)
    from Cons.prems have "visibleColumns (step (ToggleColumn x) s) \<noteq> {||}"
      by (simp add: step_def toggleColumn_nonempty)
    then show ?case using Cons.IH by simp
  qed
  have b: "visibleColumns s = {|h|} \<Longrightarrow> visibleColumns (run (replicate n (ToggleColumn h)) s) = {|h|}"
  proof (induction n arbitrary: s)
    case 0
    then show ?case by simp
  next
    case (Suc n)
    from Suc.prems have "visibleColumns (step (ToggleColumn h) s) = {|h|}"
      by (simp add: step_def toggleColumn_last)
    then show ?case using Suc.IH by simp
  qed
  from a b show ?thesis by (simp add: toggleColumn_last)
qed

theorem visibility_floor_witness:
  "visibleColumns one_visible \<noteq> {||} \<and>
   visibleColumns (run (map ToggleColumn [''A'', ''B'', ''A'', ''B'']) one_visible) \<noteq> {||} \<and>
   visibleColumns one_visible = {|''A''|} \<and>
   toggleColumn ''A'' one_visible = one_visible \<and>
   visibleColumns (run (replicate 3 (ToggleColumn ''A'')) one_visible) = {|''A''|}"
  using visibility_floor [of one_visible "[''A'', ''B'', ''A'', ''B'']" "''A''" 3]
  by (simp add: one_visible_def)

text \<open>
  C10 (the name is trimmed first). The argument is its trimmed form between two runs of
  white space characters, and no white space character starts or ends the trimmed form;
  a string is blank exactly when it is a run of white space characters. A blank name (the
  empty name too) changes nothing and reports nothing; the duplicate check tests the
  trimmed name; and the name appended to the headers, written into every row and appended
  to the display order is the trimmed name.
\<close>

theorem addColumn_trims:
  assumes "data s = Some d"
  shows "(\<exists>a b. name = a @ trim name @ b \<and> blank a \<and> blank b) \<and>
     (\<forall>w \<in> set whitespace. \<not> prefix w (trim name) \<and> \<not> suffix w (trim name)) \<and>
     (blank name \<longleftrightarrow> (\<exists>ws. set ws \<subseteq> set whitespace \<and> name = concat ws)) \<and>
     (blank name \<longrightarrow> addColumn name s = s) \<and>
     (\<not> blank name \<and> trim name \<in> set (headers d) \<longrightarrow>
        addColumn name s = s\<lparr>alerts := alerts s @ [''Column already exists'']\<rparr>) \<and>
     (\<not> blank name \<and> trim name \<notin> set (headers d) \<longrightarrow>
        (\<exists>d'. data (addColumn name s) = Some d' \<and>
           headers d' = headers d @ [trim name] \<and>
           map (\<lambda>r. map_of (content r)) (rows d') =
             map (\<lambda>r. (map_of (content r))(trim name \<mapsto> Str [])) (rows d)) \<and>
        columnOrder (addColumn name s) = columnOrder s @ [trim name])"
proof (intro conjI impI ballI)
  show "\<exists>a b. name = a @ trim name @ b \<and> blank a \<and> blank b"
    by (rule trim_decompose)
next
  fix w assume "w \<in> set whitespace"
  then show "\<not> prefix w (trim name)" and "\<not> suffix w (trim name)"
    by (rule trim_no_space)+
next
  show "blank name \<longleftrightarrow> (\<exists>ws. set ws \<subseteq> set whitespace \<and> name = concat ws)"
    by (rule blank_concat)
next
  assume "blank name"
  then show "addColumn name s = s"
    by (simp add: addColumn_blank trim_empty_iff)
next
  assume "\<not> blank name \<and> trim name \<in> set (headers d)"
  with assms show "addColumn name s = s\<lparr>alerts := alerts s @ [''Column already exists'']\<rparr>"
    by (simp add: addColumn_duplicate trim_empty_iff)
next
  assume "\<not> blank name \<and> trim name \<notin> set (headers d)"
  with assms have eq: "addColumn name s =
     s\<lparr>data := Some (d\<lparr>headers := headers d @ [trim name],
                       rows := new_rows (next_ident s)
                         (map (\<lambda>r. AList.update (trim name) (Str []) (content r)) (rows d))\<rparr>),
       visibleColumns := finsert (trim name) (visibleColumns s),
       columnOrder := columnOrder s @ [trim name],
       isAddingColumn := False,
       newColumnName := [],
       next_ident := next_ident s + length (rows d)\<rparr>"
    by (simp add: addColumn_new trim_empty_iff)
  show "\<exists>d'. data (addColumn name s) = Some d' \<and>
           headers d' = headers d @ [trim name] \<and>
           map (\<lambda>r. map_of (content r)) (rows d') =
             map (\<lambda>r. (map_of (content r))(trim name \<mapsto> Str [])) (rows d)"
    by (simp add: eq new_rows_maps)
  show "columnOrder (addColumn name s) = columnOrder s @ [trim name]"
    by (simp add: eq)
qed

theorem addColumn_trims_witness:
  "data unfiltered_example = Some unfiltered_data \<and>
   (\<exists>a b. [CHR 0xEF, CHR 0xBB, CHR 0xBF] @ ''B'' @ [CHR 0xE2, CHR 0x80, CHR 0xA8] =
      a @ trim ([CHR 0xEF, CHR 0xBB, CHR 0xBF] @ ''B'' @ [CHR 0xE2, CHR 0x80, CHR 0xA8]) @ b \<and>
      blank a \<and> blank b) \<and>
   trim ([CHR 0xEF, CHR 0xBB, CHR 0xBF] @ ''B'' @ [CHR 0xE2, CHR 0x80, CHR 0xA8]) = ''B'' \<and>
   '' '' \<in> set whitespace \<and>
   \<not> prefix '' '' (trim ([CHR 0xEF, CHR 0xBB, CHR 0xBF] @ ''B'' @ [CHR 0xE2, CHR 0x80, CHR 0xA8])) \<and>
   \<not> suffix '' '' (trim ([CHR 0xEF, CHR 0xBB, CHR 0xBF] @ ''B'' @ [CHR 0xE2, CHR 0x80, CHR 0xA8])) \<and>
   blank ('' '' @ [CHR 0xE3, CHR 0x80, CHR 0x80]) \<and>
   (\<exists>ws. set ws \<subseteq> set whitespace \<and> '' '' @ [CHR 0xE3, CHR 0x80, CHR 0x80] = concat ws) \<and>
   addColumn ('' '' @ [CHR 0xE3, CHR 0x80, CHR 0x80]) unfiltered_example = unfiltered_example \<and>
   (\<not> blank ([CHR 0xC2, CHR 0xA0] @ ''A'') \<and>
    trim ([CHR 0xC2, CHR 0xA0] @ ''A'') \<in> set (headers unfiltered_data)) \<and>
   addColumn ([CHR 0xC2, CHR 0xA0] @ ''A'') unfiltered_example =
     unfiltered_example\<lparr>alerts := alerts unfiltered_example @ [''Column already exists'']\<rparr> \<and>
   (\<not> blank ([CHR 0xEF, CHR 0xBB, CHR 0xBF] @ ''B'' @ [CHR 0xE2, CHR 0x80, CHR 0xA8]) \<and>
    trim ([CHR 0xEF, CHR 0xBB, CHR 0xBF] @ ''B'' @ [CHR 0xE2, CHR 0x80, CHR 0xA8]) \<notin>
      set (headers unfiltered_data)) \<and>
   (\<exists>d'. data (addColumn ([CHR 0xEF, CHR 0xBB, CHR 0xBF] @ ''B'' @ [CHR 0xE2, CHR 0x80, CHR 0xA8])
             unfiltered_example) = Some d' \<and>
      headers d' = [''A'', ''B''] \<and>
      map (\<lambda>r. map_of (content r)) (rows d') =
        map (\<lambda>r. (map_of (content r))(''B'' \<mapsto> Str [])) (rows unfiltered_data)) \<and>
   columnOrder (addColumn ([CHR 0xEF, CHR 0xBB, CHR 0xBF] @ ''B'' @ [CHR 0xE2, CHR 0x80, CHR 0xA8])
     unfiltered_example) = [''A'', ''B'']"
proof -
  define nameB where "nameB = [CHR 0xEF, CHR 0xBB, CHR 0xBF] @ ''B'' @ [CHR 0xE2, CHR 0x80, CHR 0xA8]"
  define nameA where "nameA = [CHR 0xC2, CHR 0xA0] @ ''A''"
  define spaces where "spaces = '' '' @ [CHR 0xE3, CHR 0x80, CHR 0x80]"
  have h: "headers unfiltered_data = [''A'']" by (simp add: unfiltered_data_def)
  have tB: "trim nameB = ''B''" and tA: "trim nameA = ''A''" and tS: "trim spaces = []"
    by (simp_all only: nameB_def nameA_def spaces_def trim_examples)
  have b: "blank spaces" "\<not> blank nameA" "\<not> blank nameB"
    using tA tB tS by (simp_all add: trim_empty_iff [symmetric])
  have sp: "'' '' \<in> set whitespace"
    by (simp add: whitespace_def)
  note w = addColumn_trims [OF unfiltered_example_data(1)]
  note wB = w [of nameB] and wS = w [of spaces]
  from wB have 1: "\<exists>a b. nameB = a @ trim nameB @ b \<and> blank a \<and> blank b"
    by (elim conjE)
  from wB have no: "\<forall>w \<in> set whitespace. \<not> prefix w (trim nameB) \<and> \<not> suffix w (trim nameB)"
    by (elim conjE)
  from wB have new: "\<not> blank nameB \<and> trim nameB \<notin> set (headers unfiltered_data) \<longrightarrow>
      (\<exists>d'. data (addColumn nameB unfiltered_example) = Some d' \<and>
         headers d' = headers unfiltered_data @ [trim nameB] \<and>
         map (\<lambda>r. map_of (content r)) (rows d') =
           map (\<lambda>r. (map_of (content r))(trim nameB \<mapsto> Str [])) (rows unfiltered_data)) \<and>
      columnOrder (addColumn nameB unfiltered_example) = columnOrder unfiltered_example @ [trim nameB]"
    by (elim conjE)
  from no sp have 6: "\<not> prefix '' '' (trim nameB)" "\<not> suffix '' '' (trim nameB)"
    by blast+
  from wS have "blank spaces \<longleftrightarrow> (\<exists>ws. set ws \<subseteq> set whitespace \<and> spaces = concat ws)"
    by (elim conjE)
  moreover from wS have "blank spaces \<longrightarrow> addColumn spaces unfiltered_example = unfiltered_example"
    by (elim conjE)
  ultimately have 2: "\<exists>ws. set ws \<subseteq> set whitespace \<and> spaces = concat ws"
    "addColumn spaces unfiltered_example = unfiltered_example"
    using b(1) by blast+
  have 5: "\<not> blank nameA \<and> trim nameA \<in> set (headers unfiltered_data)"
    "\<not> blank nameB \<and> trim nameB \<notin> set (headers unfiltered_data)"
    using b tA tB h by simp_all
  from w [of nameA]
  have "\<not> blank nameA \<and> trim nameA \<in> set (headers unfiltered_data) \<longrightarrow>
     addColumn nameA unfiltered_example =
       unfiltered_example\<lparr>alerts := alerts unfiltered_example @ [''Column already exists'']\<rparr>"
    by (elim conjE)
  with 5(1) have 3: "addColumn nameA unfiltered_example =
     unfiltered_example\<lparr>alerts := alerts unfiltered_example @ [''Column already exists'']\<rparr>"
    by (rule rev_mp)
  from new 5(2) have 7:
    "(\<exists>d'. data (addColumn nameB unfiltered_example) = Some d' \<and>
         headers d' = headers unfiltered_data @ [trim nameB] \<and>
         map (\<lambda>r. map_of (content r)) (rows d') =
           map (\<lambda>r. (map_of (content r))(trim nameB \<mapsto> Str [])) (rows unfiltered_data)) \<and>
      columnOrder (addColumn nameB unfiltered_example) = columnOrder unfiltered_example @ [trim nameB]"
    by (rule mp)
  then have 4:
    "\<exists>d'. data (addColumn nameB unfiltered_example) = Some d' \<and>
      headers d' = [''A'', ''B''] \<and>
      map (\<lambda>r. map_of (content r)) (rows d') =
        map (\<lambda>r. (map_of (content r))(''B'' \<mapsto> Str [])) (rows unfiltered_data)"
    "columnOrder (addColumn nameB unfiltered_example) = [''A'', ''B'']"
    by (simp_all add: tB h unfiltered_example_data)
  show ?thesis
    unfolding nameB_def [symmetric] nameA_def [symmetric] spaces_def [symmetric]
    by (intro conjI unfiltered_example_data(1) 1 6 tB sp b(1) 2 3 4 5)
qed

end
